theory Spec2Isabelle
  imports Complex_Main
begin

section \<open>Panorama stitching: the model of \<open>main_panoramaStitching.cpp\<close>\<close>

text \<open>
  The program maps every pixel of an equirectangular output image to a unit ray, projects
  the ray into each posed view, weights the sampled colour and accumulates it, and finally
  divides every cell by its accumulated weight.

  Numbers.  The geometry, the loops, the accumulation and the normalisation are modelled
  with \<^typ>\<open>real\<close>: the statements about them are about the arithmetic the code writes
  down, evaluated exactly.  The functions that decide the weight of a sample (\<open>sigmoid\<close>,
  \<open>maxRadius\<close>, \<open>blurMid\<close>, the distance to the centre, the radius test and the guard of
  the accumulation) and the scaling of the panorama size are modelled a second time the
  way the machine evaluates them, in IEEE 754 binary32 and binary64 with rounding,
  infinities and NaN (the definitions with the suffix \<open>_f32\<close>).  Every property whose truth
  depends on rounding, on saturation, on a division by zero or on NaN is stated on these.
  C++ \<open>int\<close> is \<^typ>\<open>int\<close>, with the 32-bit wrap-around written out where the code adds
  or converts sizes; \<open>size_t\<close> and \<open>IndexT\<close> are \<^typ>\<open>nat\<close>.

  Collaborators: the scene, the poses, the intrinsics, the source images and the sampler
  are inputs of the model.  Writing the panorama is not modelled; the result of a run is
  the image that is handed to \<open>writeImage\<close>.
\<close>

subsection \<open>The helper functions\<close>

type_synonym Vec2 = "real \<times> real"
type_synonym Vec3 = "real \<times> real \<times> real"

text \<open>
  \<^verbatim>\<open>float sigmoid(float x, float sigwidth, float sigMid)\<close>, the formula evaluated exactly.
  For \<open>sigwidth = 0\<close> the C++ code divides by zero and HOL's \<open>x / 0 = 0\<close> is not the IEEE
  result: what the machine computes, for this width and every other, is \<open>sigmoid_f32\<close>
  below.
\<close>

definition sigmoid :: "real \<Rightarrow> real \<Rightarrow> real \<Rightarrow> real" where
  "sigmoid x sigwidth sigMid = 1 / (1 + exp (10 * ((x - sigMid) / sigwidth)))"

text \<open>
  \<^verbatim>\<open>SphericalMapping::get3DPoint\<close>: the two angles are local constants of the C++ function;
  they are separate definitions here so that statements can speak about them.
\<close>

definition longitude :: "real \<Rightarrow> int \<Rightarrow> real" where
  "longitude px width = pi * 2 * (px - real_of_int width) / real_of_int width"

definition latitude :: "real \<Rightarrow> int \<Rightarrow> real" where
  "latitude py height = pi * (real_of_int height / 2 - py) / real_of_int height"

definition get3DPoint :: "Vec2 \<Rightarrow> int \<Rightarrow> int \<Rightarrow> Vec3" where
  "get3DPoint pos2d width height =
     (let lon = longitude (fst pos2d) width;
          lat = latitude (snd pos2d) height;
          Px = cos lat * cos lon;
          Py = cos lat * sin lon;
          Pz = sin lat
      in (Px, Py, Pz))"

subsection \<open>Integer conversions\<close>

text \<open>
  A value stored into a C++ \<open>int\<close> keeps its low 32 bits, read in two's complement
  (\<open>panoramaSize.first += view.getHeight()\<close> adds in \<open>size_t\<close> and stores an \<open>int\<close>;
  \<open>int(view.getWidth())\<close> converts).  A floating-point value stored into an integer is
  truncated towards zero.
\<close>

definition to_int32 :: "int \<Rightarrow> int" where
  "to_int32 n = (n + 2 ^ 31) mod 2 ^ 32 - 2 ^ 31"

definition trunc_to_int :: "real \<Rightarrow> int" where
  "trunc_to_int x = (if 0 \<le> x then \<lfloor>x\<rfloor> else \<lceil>x\<rceil>)"

subsection \<open>Binary floating point\<close>

text \<open>
  Rounding to nearest, ties to even.  \<open>rne z\<close> is the integer nearest to \<open>z\<close>;
  \<open>rnd p emin x\<close> is the nearest number with \<open>p\<close> significant bits and no exponent below
  \<open>emin\<close> (so the numbers below \<open>2 powi emin\<close> are the subnormal ones, with the spacing
  \<open>2 powi (emin - (p - 1))\<close>), without a bound on the exponent from above;
  \<open>representable p emin x\<close> says that \<open>x\<close> is such a number.
\<close>

definition rne :: "real \<Rightarrow> int" where
  "rne z = (let n = \<lfloor>z\<rfloor>; d = z - real_of_int n in
            if d < 1 / 2 then n else if 1 / 2 < d then n + 1 else if even n then n else n + 1)"

definition ulp_exponent :: "nat \<Rightarrow> int \<Rightarrow> real \<Rightarrow> int" where
  "ulp_exponent p emin x = max \<lfloor>log 2 \<bar>x\<bar>\<rfloor> emin - (int p - 1)"

definition rnd :: "nat \<Rightarrow> int \<Rightarrow> real \<Rightarrow> real" where
  "rnd p emin x =
     (if x = 0 then 0
      else let k = ulp_exponent p emin x
           in sgn x * (2 powi k * real_of_int (rne (\<bar>x\<bar> / 2 powi k))))"

definition representable :: "nat \<Rightarrow> int \<Rightarrow> real \<Rightarrow> bool" where
  "representable p emin x \<longleftrightarrow>
     (\<exists>m k. x = real_of_int m * 2 powi k \<and> \<bar>m\<bar> < 2 ^ p \<and> emin - (int p - 1) \<le> k)"

text \<open>
  The values of a C++ \<open>float\<close> or \<open>double\<close>: a finite number, an infinity, or NaN.  The
  two zeros are not told apart: a zero is the positive one, so that a division of a
  non-zero number by zero has the sign of the dividend.  \<open>round_to\<close> is the rounding of an
  exact result into a format: a result that rounds to \<open>2 powi (emax + 1)\<close> or beyond
  overflows to an infinity.  \<open>round32\<close> is binary32 (\<open>float\<close>), \<open>round64\<close> is binary64
  (\<open>double\<close>).
\<close>

datatype fp = Finite real | PlusInf | MinusInf | NaN

definition round_to :: "nat \<Rightarrow> int \<Rightarrow> int \<Rightarrow> real \<Rightarrow> fp" where
  "round_to p emin emax x =
     (let y = rnd p emin x
      in if 2 powi (emax + 1) \<le> \<bar>y\<bar> then (if 0 < y then PlusInf else MinusInf) else Finite y)"

definition round32 :: "real \<Rightarrow> fp" where
  "round32 = round_to 24 (- 126) 127"

definition round64 :: "real \<Rightarrow> fp" where
  "round64 = round_to 53 (- 1022) 1023"

text \<open>
  The operations, with the rounding \<open>rd\<close> of the format they are evaluated in: the exact
  result of finite operands is rounded once; the other cases are those of IEEE 754.
  \<open>fexp\<close> is \<open>expf\<close>, taken as the correctly rounded exponential; \<open>fsqrt\<close> is \<open>std::sqrt\<close>;
  \<open>fgt\<close> is the comparison \<open>>\<close>, false as soon as an operand is NaN; \<open>to_float\<close> is the
  conversion of a \<open>double\<close> to \<open>float\<close>.  Every C++ operation is taken to be evaluated in
  the format of its type, without contraction of a product and a sum into one operation.
\<close>

fun fneg :: "fp \<Rightarrow> fp" where
  "fneg (Finite x) = Finite (- x)"
| "fneg PlusInf = MinusInf"
| "fneg MinusInf = PlusInf"
| "fneg NaN = NaN"

fun fadd :: "(real \<Rightarrow> fp) \<Rightarrow> fp \<Rightarrow> fp \<Rightarrow> fp" where
  "fadd rd (Finite x) (Finite y) = rd (x + y)"
| "fadd rd NaN v = NaN"
| "fadd rd v NaN = NaN"
| "fadd rd PlusInf MinusInf = NaN"
| "fadd rd MinusInf PlusInf = NaN"
| "fadd rd PlusInf v = PlusInf"
| "fadd rd v PlusInf = PlusInf"
| "fadd rd MinusInf v = MinusInf"
| "fadd rd v MinusInf = MinusInf"

definition fsub :: "(real \<Rightarrow> fp) \<Rightarrow> fp \<Rightarrow> fp \<Rightarrow> fp" where
  "fsub rd v w = fadd rd v (fneg w)"

fun fmul :: "(real \<Rightarrow> fp) \<Rightarrow> fp \<Rightarrow> fp \<Rightarrow> fp" where
  "fmul rd (Finite x) (Finite y) = rd (x * y)"
| "fmul rd NaN v = NaN"
| "fmul rd v NaN = NaN"
| "fmul rd (Finite x) PlusInf = (if x = 0 then NaN else if 0 < x then PlusInf else MinusInf)"
| "fmul rd (Finite x) MinusInf = (if x = 0 then NaN else if 0 < x then MinusInf else PlusInf)"
| "fmul rd PlusInf (Finite y) = (if y = 0 then NaN else if 0 < y then PlusInf else MinusInf)"
| "fmul rd MinusInf (Finite y) = (if y = 0 then NaN else if 0 < y then MinusInf else PlusInf)"
| "fmul rd PlusInf PlusInf = PlusInf"
| "fmul rd PlusInf MinusInf = MinusInf"
| "fmul rd MinusInf PlusInf = MinusInf"
| "fmul rd MinusInf MinusInf = PlusInf"

fun fdiv :: "(real \<Rightarrow> fp) \<Rightarrow> fp \<Rightarrow> fp \<Rightarrow> fp" where
  "fdiv rd (Finite x) (Finite y) =
     (if y = 0 then (if x = 0 then NaN else if 0 < x then PlusInf else MinusInf)
      else rd (x / y))"
| "fdiv rd NaN v = NaN"
| "fdiv rd v NaN = NaN"
| "fdiv rd (Finite x) v = Finite 0"
| "fdiv rd PlusInf (Finite y) = (if 0 \<le> y then PlusInf else MinusInf)"
| "fdiv rd MinusInf (Finite y) = (if 0 \<le> y then MinusInf else PlusInf)"
| "fdiv rd v w = NaN"

fun fexp :: "(real \<Rightarrow> fp) \<Rightarrow> fp \<Rightarrow> fp" where
  "fexp rd (Finite x) = rd (exp x)"
| "fexp rd PlusInf = PlusInf"
| "fexp rd MinusInf = Finite 0"
| "fexp rd NaN = NaN"

fun fsqrt :: "(real \<Rightarrow> fp) \<Rightarrow> fp \<Rightarrow> fp" where
  "fsqrt rd (Finite x) = (if x < 0 then NaN else rd (sqrt x))"
| "fsqrt rd PlusInf = PlusInf"
| "fsqrt rd v = NaN"

fun fgt :: "fp \<Rightarrow> fp \<Rightarrow> bool" where
  "fgt (Finite x) (Finite y) = (y < x)"
| "fgt NaN v = False"
| "fgt v NaN = False"
| "fgt v PlusInf = False"
| "fgt MinusInf v = False"
| "fgt PlusInf v = True"
| "fgt v MinusInf = True"

fun to_float :: "fp \<Rightarrow> fp" where
  "to_float (Finite x) = round32 x"
| "to_float v = v"

text \<open>The order of the values, used to state bounds: NaN is not comparable.\<close>

fun fle :: "fp \<Rightarrow> fp \<Rightarrow> bool" where
  "fle (Finite x) (Finite y) = (x \<le> y)"
| "fle NaN v = False"
| "fle v NaN = False"
| "fle MinusInf v = True"
| "fle v PlusInf = True"
| "fle v w = False"

text \<open>
  \<^verbatim>\<open>float sigmoid(float x, float sigwidth, float sigMid)\<close> as the machine evaluates it:
  \<^verbatim>\<open>1.0f / (1.0f + expf(10.0f * ((x - sigMid) / sigwidth)))\<close>, every operation in \<open>float\<close>.
\<close>

definition sigmoid_f32 :: "fp \<Rightarrow> fp \<Rightarrow> fp \<Rightarrow> fp" where
  "sigmoid_f32 x sigwidth sigMid =
     fdiv round32 (Finite 1)
       (fadd round32 (Finite 1)
          (fexp round32 (fmul round32 (Finite 10) (fdiv round32 (fsub round32 x sigMid) sigwidth))))"

subsection \<open>Data\<close>

text \<open>\<open>image::RGBfColor\<close> and \<open>image::RGBAfColor\<close>, with the accessors \<open>r()\<close>, \<open>g()\<close>, \<open>b()\<close>, \<open>a()\<close>.\<close>

record RGBfColor =
  r :: real
  g :: real
  b :: real

record RGBAfColor = RGBfColor +
  a :: real

text \<open>
  Modelled from the spec: the declaration of \<open>sfmData::EEXIFOrientation\<close> is not part of
  the source file.  The four tags that the size estimation names are the rotated
  (portrait-style) ones; \<open>OTHER_ORIENTATION\<close> stands for every other tag.
\<close>

datatype EEXIFOrientation = RIGHT | LEFT | RIGHT_REVERSED | LEFT_REVERSED | OTHER_ORIENTATION

text \<open>
  A view together with what the program asks the collaborators about it:
  \<open>isPoseAndIntrinsicDefined\<close> is \<open>sfmData.isPoseAndIntrinsicDefined(&view)\<close>, \<open>depth\<close> is
  \<open>camPose.getTransform().depth\<close>, \<open>project\<close> is
  \<open>intrinsic.project(camPose.getTransform(), ray, true)\<close>, \<open>imageIn_Width\<close> and
  \<open>imageIn_Height\<close> are the dimensions of the image that \<open>readImage\<close> returns for the
  view, \<open>imageIn_Readable\<close> says that \<open>readImage\<close> returns (it throws otherwise), and
  \<open>sampler y x\<close> is \<open>sampler(imageIn, y, x)\<close>.
\<close>

record View =
  getViewId :: nat
  getWidth :: nat
  getHeight :: nat
  getMetadataOrientation :: EEXIFOrientation
  isPoseAndIntrinsicDefined :: bool
  depth :: "Vec3 \<Rightarrow> real"
  project :: "Vec3 \<Rightarrow> Vec2"
  imageIn_Width :: int
  imageIn_Height :: int
  imageIn_Readable :: bool
  sampler :: "real \<Rightarrow> real \<Rightarrow> RGBfColor"

text \<open>The views of the scene, in the order in which \<open>sfmData.getViews()\<close> is iterated.\<close>

type_synonym SfMData = "View list"

text \<open>
  Modelled from the spec: \<open>SfMData::getValidViews\<close> and \<open>SfMData::getView\<close> are not part of
  the source file.  The valid views are the posed and intrinsic-defined ones, as a set of
  view ids; \<open>getView\<close> looks a view up by its id and throws when there is none.
\<close>

definition getValidViews :: "SfMData \<Rightarrow> nat set" where
  "getValidViews sfmData = set (map getViewId (filter isPoseAndIntrinsicDefined sfmData))"

definition getView :: "SfMData \<Rightarrow> nat \<Rightarrow> View option" where
  "getView sfmData viewId = find (\<lambda>view. getViewId view = viewId) sfmData"

text \<open>The output image: \<open>imageOut(y, x)\<close> is \<open>pixel imageOut y x\<close>.\<close>

record Image_RGBAf =
  Width :: int
  Height :: int
  pixel :: "int \<Rightarrow> int \<Rightarrow> RGBAfColor"

definition setPixel :: "Image_RGBAf \<Rightarrow> int \<Rightarrow> int \<Rightarrow> RGBAfColor \<Rightarrow> Image_RGBAf" where
  "setPixel img y x c = img\<lparr>pixel := (pixel img)(y := (pixel img y)(x := c))\<rparr>"

text \<open>
  \<open>Image(width, height, true, RGBAfColor(0, 0, 0, 0))\<close>.
\<close>

definition newImage :: "int \<Rightarrow> int \<Rightarrow> Image_RGBAf" where
  "newImage width height =
     \<lparr>Width = width, Height = height, pixel = (\<lambda>y x. \<lparr>r = 0, g = 0, b = 0, a = 0\<rparr>)\<rparr>"

subsection \<open>Command line\<close>

text \<open>
  The options as given on the command line (\<open>None\<close>: not given), and the values the
  program works with after \<open>po::notify\<close>.  The option \<open>panoramaSize\<close> is commented out
  in the source, so the variable keeps its initial value \<open>{0, 0}\<close>.  The numbers are the
  decimal values of the options; the program holds them in \<open>float\<close> variables, which the
  binary32 functions below read as \<open>round32\<close> of the value.
\<close>

record CmdLine =
  arg_input :: "string option"
  arg_output :: "string option"
  arg_scaleFactor :: "real option"
  arg_fisheyeMasking :: "bool option"
  arg_fisheyeMaskingMargin :: "real option"
  arg_transitionSize :: "real option"
  arg_verboseLevel :: "string option"

record Config =
  sfmDataFilename :: string
  outputPanorama :: string
  scaleFactor :: real
  fisheyeMasking :: bool
  fisheyeMaskingMargin :: real
  transitionSize :: real

text \<open>
  How a run ends when it does not write a panorama: \<open>return EXIT_SUCCESS\<close> after the usage
  text (\<open>argc == 1\<close>), \<open>return EXIT_FAILURE\<close>, \<open>return -1\<close> when no view is valid, the
  exception of a failed \<open>getView\<close>, which nothing catches, the conversion of a scaled
  size that no \<open>int\<close> holds, the allocation of an image with a negative width or height,
  and the exception of a failed \<open>readImage\<close>, which nothing catches either.
\<close>

datatype Exit =
    HELP_EXIT_SUCCESS
  | EXIT_FAILURE
  | EXIT_NO_VALID_CAMERAS
  | UNCAUGHT_OUT_OF_RANGE
  | UNDEFINED_FLOAT_TO_INT
  | BAD_IMAGE_SIZE
  | UNCAUGHT_READ_IMAGE

text \<open>
  Source lines 79 to 140: without any argument the usage text is printed; \<open>input\<close> and
  \<open>output\<close> are required; every other option has its default.  No value is checked.
\<close>

definition parseCommandLine :: "CmdLine \<Rightarrow> Exit + Config" where
  "parseCommandLine cmd =
     (if arg_input cmd = None \<and> arg_output cmd = None \<and> arg_scaleFactor cmd = None \<and>
         arg_fisheyeMasking cmd = None \<and> arg_fisheyeMaskingMargin cmd = None \<and>
         arg_transitionSize cmd = None \<and> arg_verboseLevel cmd = None
      then Inl HELP_EXIT_SUCCESS
      else case (arg_input cmd, arg_output cmd) of
        (Some i, Some out) \<Rightarrow>
          Inr \<lparr>sfmDataFilename = i, outputPanorama = out,
               scaleFactor = (case arg_scaleFactor cmd of None \<Rightarrow> 0.2 | Some v \<Rightarrow> v),
               fisheyeMasking = (case arg_fisheyeMasking cmd of None \<Rightarrow> False | Some v \<Rightarrow> v),
               fisheyeMaskingMargin =
                 (case arg_fisheyeMaskingMargin cmd of None \<Rightarrow> 0.05 | Some v \<Rightarrow> v),
               transitionSize = (case arg_transitionSize cmd of None \<Rightarrow> 10 | Some v \<Rightarrow> v)\<rparr>
      | _ \<Rightarrow> Inl EXIT_FAILURE)"

subsection \<open>Size of the panorama\<close>

text \<open>The loop over the views that sums up the automatic size (source lines 179 to 200).\<close>

fun sizeLoop :: "EEXIFOrientation \<Rightarrow> View list \<Rightarrow> int \<times> int \<Rightarrow> int \<times> int" where
  "sizeLoop orientation [] panoramaSize = panoramaSize"
| "sizeLoop orientation (view # views) panoramaSize =
     (if \<not> isPoseAndIntrinsicDefined view then sizeLoop orientation views panoramaSize
      else if orientation = RIGHT \<or> orientation = LEFT \<or>
              orientation = RIGHT_REVERSED \<or> orientation = LEFT_REVERSED
      then sizeLoop orientation views
             (to_int32 (fst panoramaSize + int (getHeight view)),
              max (snd panoramaSize) (to_int32 (int (getWidth view))))
      else sizeLoop orientation views
             (to_int32 (fst panoramaSize + int (getWidth view)),
              max (snd panoramaSize) (to_int32 (int (getHeight view)))))"

text \<open>
  Source lines 166 to 202.  The orientation is read once, from the valid view with the
  least id (\<open>*validViews.begin()\<close> of a \<open>std::set\<close>), before the loop.  The program
  gets here only with at least one valid view; without one, \<open>*validViews.begin()\<close> is
  undefined in C++, as \<open>Min {}\<close> is unspecified in HOL.
\<close>

definition estimatePanoramaSize :: "int \<times> int \<Rightarrow> SfMData \<Rightarrow> Exit + int \<times> int" where
  "estimatePanoramaSize panoramaSize sfmData =
     (if fst panoramaSize = 0 \<or> snd panoramaSize = 0 then
        (case getView sfmData (Min (getValidViews sfmData)) of
           None \<Rightarrow> Inl UNCAUGHT_OUT_OF_RANGE
         | Some firstView \<Rightarrow>
             let orientation = getMetadataOrientation firstView in
             if fst panoramaSize \<noteq> 0 \<or> snd panoramaSize \<noteq> 0 then
               (let s = max (fst panoramaSize) (snd panoramaSize) in Inr (s, s))
             else Inr (sizeLoop orientation sfmData (0, snd panoramaSize)))
      else Inr panoramaSize)"

subsection \<open>One output pixel and one view\<close>

definition maxRadius :: "Config \<Rightarrow> View \<Rightarrow> real" where
  "maxRadius cfg view =
     real_of_int (min (imageIn_Width view) (imageIn_Height view)) * 0.5 *
       (1 - fisheyeMaskingMargin cfg)"

definition blurMid :: "Config \<Rightarrow> View \<Rightarrow> real" where
  "blurMid cfg view = maxRadius cfg view - transitionSize cfg / 2"

text \<open>
  \<open>const Vec2i center(imageIn.Width()/2.f, imageIn.Height()/2.f)\<close>: the vector has integer
  components, so both halves are truncated.
\<close>

definition center :: "View \<Rightarrow> int \<times> int" where
  "center view =
     (trunc_to_int (real_of_int (imageIn_Width view) / 2),
      trunc_to_int (real_of_int (imageIn_Height view) / 2))"

definition dist_to_center :: "View \<Rightarrow> Vec2 \<Rightarrow> real" where
  "dist_to_center view pix_disto =
     sqrt ((fst pix_disto - real_of_int (fst (center view))) *
             (fst pix_disto - real_of_int (fst (center view))) +
           (snd pix_disto - real_of_int (snd (center view))) *
             (snd pix_disto - real_of_int (snd (center view))))"

text \<open>
  Source lines 246 to 260: the depth test, the projection and the bounds test.  \<open>None\<close> is
  the \<open>continue\<close>.
\<close>

definition visiblePixel :: "View \<Rightarrow> Vec3 \<Rightarrow> Vec2 option" where
  "visiblePixel view ray =
     (if depth view ray < 0 then None
      else let pix_disto = project view ray in
        if fst pix_disto < 0 \<or> fst pix_disto \<ge> real_of_int (imageIn_Width view) \<or>
           snd pix_disto < 0 \<or> snd pix_disto \<ge> real_of_int (imageIn_Height view)
        then None
        else Some pix_disto)"

text \<open>Source lines 262 to 275: the weight of the sample.  \<open>None\<close> is the \<open>continue\<close>.\<close>

definition contribution :: "Config \<Rightarrow> View \<Rightarrow> Vec2 \<Rightarrow> real option" where
  "contribution cfg view pix_disto =
     (if fisheyeMasking cfg then
        (let dist = dist_to_center view pix_disto in
         if dist > maxRadius cfg view then None
         else Some (sigmoid dist (transitionSize cfg) (blurMid cfg view)))
      else Some 1)"

text \<open>Source lines 278 to 284: the guarded accumulation into the cell.\<close>

definition accumulate :: "RGBAfColor \<Rightarrow> RGBfColor \<Rightarrow> real \<Rightarrow> RGBAfColor" where
  "accumulate cell px c =
     (if c > 0
      then cell\<lparr>r := r cell + r px * c, g := g cell + g px * c, b := b cell + b px * c,
                a := a cell + c\<rparr>
      else cell)"

text \<open>The body of the inner loop (source lines 242 to 284), as the new value of the cell.\<close>

definition pixelStep :: "Config \<Rightarrow> View \<Rightarrow> int \<Rightarrow> int \<Rightarrow> int \<Rightarrow> int \<Rightarrow> RGBAfColor \<Rightarrow> RGBAfColor" where
  "pixelStep cfg view outW outH x y cell =
     (case visiblePixel view (get3DPoint (real_of_int x, real_of_int y) outW outH) of
        None \<Rightarrow> cell
      | Some pix_disto \<Rightarrow>
          (case contribution cfg view pix_disto of
             None \<Rightarrow> cell
           | Some c \<Rightarrow> accumulate cell (sampler view (snd pix_disto) (fst pix_disto)) c))"

text \<open>Source lines 294 to 300: the normalisation of one cell.\<close>

definition normalizePixel :: "RGBAfColor \<Rightarrow> RGBAfColor" where
  "normalizePixel cell =
     (if a cell > 0.0001
      then cell\<lparr>r := r cell / a cell, g := g cell / a cell, b := b cell / a cell\<rparr>
      else cell)"

subsection \<open>The weight of a sample in binary32\<close>

text \<open>
  Source lines 231 to 234 and 262 to 284 as the machine evaluates them.  The options are
  \<open>float\<close> variables: the value of the configuration, rounded.
  \<open>std::min(imageIn.Width(), imageIn.Height()) * 0.5f\<close> is a \<open>float\<close> product;
  \<open>(1.0 - fisheyeMaskingMargin)\<close> and the product with it are \<open>double\<close>; the result is
  stored in a \<open>float\<close>.  \<open>transitionSize/2.f\<close> and the difference are \<open>float\<close>.  The
  coordinates of the projected pixel are \<open>double\<close>, the centre is a pair of \<open>int\<close>; the
  distance is computed in \<open>double\<close> and stored in a \<open>float\<close>, and compared with
  \<open>maxRadius\<close> as a \<open>float\<close>.
\<close>

definition maxRadius_f32 :: "Config \<Rightarrow> View \<Rightarrow> fp" where
  "maxRadius_f32 cfg view =
     to_float
       (fmul round64
          (fmul round32 (round32 (real_of_int (min (imageIn_Width view) (imageIn_Height view))))
             (Finite 0.5))
          (fsub round64 (Finite 1) (round32 (fisheyeMaskingMargin cfg))))"

definition blurMid_f32 :: "Config \<Rightarrow> View \<Rightarrow> fp" where
  "blurMid_f32 cfg view =
     fsub round32 (maxRadius_f32 cfg view)
       (fdiv round32 (round32 (transitionSize cfg)) (Finite 2))"

definition dist_f32 :: "View \<Rightarrow> Vec2 \<Rightarrow> fp" where
  "dist_f32 view pix_disto =
     (let dx = fsub round64 (Finite (fst pix_disto)) (Finite (real_of_int (fst (center view))));
          dy = fsub round64 (Finite (snd pix_disto)) (Finite (real_of_int (snd (center view))))
      in to_float
           (fsqrt round64 (fadd round64 (fmul round64 dx dx) (fmul round64 dy dy))))"

definition contribution_f32 :: "Config \<Rightarrow> View \<Rightarrow> Vec2 \<Rightarrow> fp option" where
  "contribution_f32 cfg view pix_disto =
     (if fisheyeMasking cfg then
        (let dist = dist_f32 view pix_disto in
         if fgt dist (maxRadius_f32 cfg view) then None
         else Some (sigmoid_f32 dist (round32 (transitionSize cfg)) (blurMid_f32 cfg view)))
      else Some (Finite 1))"

text \<open>
  The colour of a sample and a cell of the output image with \<open>float\<close> channels, and the
  guarded accumulation \<open>if(contribution > 0.0f)\<close> of source lines 278 to 284.
\<close>

record RGBfColor_f32 =
  r32 :: fp
  g32 :: fp
  b32 :: fp

record RGBAfColor_f32 = RGBfColor_f32 +
  a32 :: fp

definition accumulate_f32 :: "RGBAfColor_f32 \<Rightarrow> RGBfColor_f32 \<Rightarrow> fp \<Rightarrow> RGBAfColor_f32" where
  "accumulate_f32 cell px c =
     (if fgt c (Finite 0)
      then cell\<lparr>r32 := fadd round32 (r32 cell) (fmul round32 (r32 px) c),
                g32 := fadd round32 (g32 cell) (fmul round32 (g32 px) c),
                b32 := fadd round32 (b32 cell) (fmul round32 (b32 px) c),
                a32 := fadd round32 (a32 cell) c\<rparr>
      else cell)"

subsection \<open>The loops\<close>

text \<open>\<open>for(int i = i0; i < n; ++i) body\<close>, on a state.\<close>

function forLoop :: "int \<Rightarrow> int \<Rightarrow> (int \<Rightarrow> 's \<Rightarrow> 's) \<Rightarrow> 's \<Rightarrow> 's" where
  "forLoop i n body s = (if i < n then forLoop (i + 1) n body (body i s) else s)"
  by pat_completeness auto
termination
  by (relation "measure (\<lambda>(i, n, body, s). nat (n - i))") auto

declare forLoop.simps [simp del]

text \<open>Source lines 238 to 286: one view's pass over the output image.\<close>

definition stitchView :: "Config \<Rightarrow> View \<Rightarrow> Image_RGBAf \<Rightarrow> Image_RGBAf" where
  "stitchView cfg view imageOut =
     forLoop 0 (Height imageOut)
       (\<lambda>y. forLoop 0 (Width imageOut)
          (\<lambda>x img.
             setPixel img y x
               (pixelStep cfg view (Width img) (Height img) x y (pixel img y x))))
       imageOut"

text \<open>Source lines 212 to 287: the loop over the views; a view that is not valid is skipped.\<close>

fun stitchViews :: "Config \<Rightarrow> View list \<Rightarrow> Image_RGBAf \<Rightarrow> Image_RGBAf" where
  "stitchViews cfg [] imageOut = imageOut"
| "stitchViews cfg (view # views) imageOut =
     (if \<not> isPoseAndIntrinsicDefined view then stitchViews cfg views imageOut
      else stitchViews cfg views (stitchView cfg view imageOut))"

text \<open>Source lines 289 to 302.\<close>

definition normalizeImage :: "Image_RGBAf \<Rightarrow> Image_RGBAf" where
  "normalizeImage imageOut =
     forLoop 0 (Height imageOut)
       (\<lambda>y. forLoop 0 (Width imageOut)
          (\<lambda>x img. setPixel img y x (normalizePixel (pixel img y x))))
       imageOut"

subsection \<open>The program\<close>

text \<open>
  \<open>panoramaSize.first *= scaleFactor\<close>: the \<open>int\<close> is converted to \<open>float\<close>, the product is
  a \<open>float\<close>, and it is converted back to \<open>int\<close> by truncation.  The conversion of a value
  that no \<open>int\<close> holds (an infinity and NaN included) is undefined in C++: it is \<open>None\<close>.
\<close>

definition mulAssign :: "int \<Rightarrow> fp \<Rightarrow> int option" where
  "mulAssign n scale =
     (case fmul round32 (round32 (real_of_int n)) scale of
        Finite x \<Rightarrow> if - (2 ^ 31) - 1 < x \<and> x < 2 ^ 31 then Some (trunc_to_int x) else None
      | _ \<Rightarrow> None)"

text \<open>
  \<open>main\<close>, from the command line and the scene that \<open>sfmDataIO::Load\<close> returns (\<open>None\<close>
  when it fails) to the image handed to \<open>writeImage\<close>.  The output image is allocated
  with the scaled size, which must not be negative.  \<open>readImage\<close> is called for every
  valid view at the beginning of its pass, and nothing catches its exception: a run with
  a valid view whose image cannot be read ends without a panorama, whatever the passes
  before it have accumulated.
\<close>

definition main_panoramaStitching :: "CmdLine \<Rightarrow> SfMData option \<Rightarrow> Exit + Image_RGBAf" where
  "main_panoramaStitching cmd loaded =
     (case parseCommandLine cmd of
        Inl e \<Rightarrow> Inl e
      | Inr cfg \<Rightarrow>
          (case loaded of
             None \<Rightarrow> Inl EXIT_FAILURE
           | Some sfmData \<Rightarrow>
               if card (getValidViews sfmData) = 0 then Inl EXIT_NO_VALID_CAMERAS
               else
                 (case estimatePanoramaSize (0, 0) sfmData of
                    Inl e \<Rightarrow> Inl e
                  | Inr panoramaSize \<Rightarrow>
                      (case (mulAssign (fst panoramaSize) (round32 (scaleFactor cfg)),
                             mulAssign (snd panoramaSize) (round32 (scaleFactor cfg))) of
                         (Some width, Some height) \<Rightarrow>
                           if width < 0 \<or> height < 0 then Inl BAD_IMAGE_SIZE
                           else if list_ex (\<lambda>view. isPoseAndIntrinsicDefined view \<and>
                                                 \<not> imageIn_Readable view) sfmData
                           then Inl UNCAUGHT_READ_IMAGE
                           else Inr (normalizeImage (stitchViews cfg sfmData (newImage width height)))
                       | _ \<Rightarrow> Inl UNDEFINED_FLOAT_TO_INT))))"

section \<open>Notions used to state the properties\<close>

subsection \<open>The vignette weight as the specification words it\<close>

text \<open>
  The specification's VignetteWeighter measures the distance to
  \<open>center = (width/2, height/2)\<close>: no contribution beyond \<open>maxRadius\<close>, and otherwise
  the sigmoid of the distance.
\<close>

definition spec_center :: "View \<Rightarrow> Vec2" where
  "spec_center view = (real_of_int (imageIn_Width view) / 2, real_of_int (imageIn_Height view) / 2)"

definition spec_dist :: "View \<Rightarrow> Vec2 \<Rightarrow> real" where
  "spec_dist view pix =
     sqrt ((fst pix - fst (spec_center view))\<^sup>2 + (snd pix - snd (spec_center view))\<^sup>2)"

definition spec_vignetteWeight :: "Config \<Rightarrow> View \<Rightarrow> Vec2 \<Rightarrow> real option" where
  "spec_vignetteWeight cfg view pix =
     (if spec_dist view pix > maxRadius cfg view then None
      else Some (sigmoid (spec_dist view pix) (transitionSize cfg) (blurMid cfg view)))"

subsection \<open>The samples that reach a cell\<close>

text \<open>
  The colour and the weight that a view adds to the cell of the output pixel \<open>(x, y)\<close>,
  if it adds any: the view passes the visibility test and the radius test, and the guard
  \<open>contribution > 0\<close> holds.  \<open>samplesAt\<close> lists them for the valid views, in the order of
  the passes.
\<close>

definition sampleAt :: "Config \<Rightarrow> View \<Rightarrow> int \<Rightarrow> int \<Rightarrow> int \<Rightarrow> int \<Rightarrow> (RGBfColor \<times> real) option" where
  "sampleAt cfg view outW outH x y =
     (case visiblePixel view (get3DPoint (real_of_int x, real_of_int y) outW outH) of
        None \<Rightarrow> None
      | Some pix_disto \<Rightarrow>
          (case contribution cfg view pix_disto of
             None \<Rightarrow> None
           | Some c \<Rightarrow>
               if c > 0 then Some (sampler view (snd pix_disto) (fst pix_disto), c) else None))"

definition samplesAt :: "Config \<Rightarrow> View list \<Rightarrow> int \<Rightarrow> int \<Rightarrow> int \<Rightarrow> int \<Rightarrow> (RGBfColor \<times> real) list" where
  "samplesAt cfg views outW outH x y =
     List.map_filter (\<lambda>view. sampleAt cfg view outW outH x y)
       (filter isPoseAndIntrinsicDefined views)"

subsection \<open>The states of the output image during a run\<close>

text \<open>
  The image after each pass of a valid view, and the whole sequence: the new image, the
  image after each pass, the normalised image.
\<close>

fun stitchStates :: "Config \<Rightarrow> View list \<Rightarrow> Image_RGBAf \<Rightarrow> Image_RGBAf list" where
  "stitchStates cfg [] imageOut = []"
| "stitchStates cfg (view # views) imageOut =
     (if \<not> isPoseAndIntrinsicDefined view then stitchStates cfg views imageOut
      else stitchView cfg view imageOut # stitchStates cfg views (stitchView cfg view imageOut))"

definition runStates :: "Config \<Rightarrow> View list \<Rightarrow> int \<Rightarrow> int \<Rightarrow> Image_RGBAf list" where
  "runStates cfg views width height =
     (let states = newImage width height # stitchStates cfg views (newImage width height)
      in states @ [normalizeImage (last states)])"

subsection \<open>The size estimation as the specification words it\<close>

text \<open>
  The specification's SizeEstimator without an override: only the valid views count, each
  is classified by its own orientation tag; a rotated view adds its height to the output
  width and its width to the maximum that is the output height, a normal view adds its
  width and its height.
\<close>

definition spec_rotated :: "EEXIFOrientation \<Rightarrow> bool" where
  "spec_rotated tag = (tag = RIGHT \<or> tag = LEFT \<or> tag = RIGHT_REVERSED \<or> tag = LEFT_REVERSED)"

fun spec_addView :: "View \<Rightarrow> int \<times> int \<Rightarrow> int \<times> int" where
  "spec_addView view (w, h) =
     (if spec_rotated (getMetadataOrientation view)
      then (w + int (getHeight view), max h (int (getWidth view)))
      else (w + int (getWidth view), max h (int (getHeight view))))"

definition spec_SizeEstimator :: "View list \<Rightarrow> int \<times> int" where
  "spec_SizeEstimator views = fold spec_addView (filter isPoseAndIntrinsicDefined views) (0, 0)"

subsection \<open>Concrete inputs\<close>

text \<open>
  Fisheye masking with margin 0 and transition size 10; a camera that looks along \<open>+Z\<close>
  (the depth of a ray is its third component) with a 100 by 100 image; the same camera
  with a 101 by 101 image, and projecting to the rim of its image.
\<close>

definition exampleConfig :: Config where
  "exampleConfig =
     \<lparr>sfmDataFilename = ''scene.sfm'', outputPanorama = ''pano.exr'', scaleFactor = 0.2,
      fisheyeMasking = True, fisheyeMaskingMargin = 0, transitionSize = 10\<rparr>"

definition exampleView :: View where
  "exampleView =
     \<lparr>getViewId = 0, getWidth = 100, getHeight = 100,
      getMetadataOrientation = OTHER_ORIENTATION, isPoseAndIntrinsicDefined = True,
      depth = (\<lambda>ray. snd (snd ray)), project = (\<lambda>ray. (50, 5)),
      imageIn_Width = 100, imageIn_Height = 100, imageIn_Readable = True,
      sampler = (\<lambda>y x. \<lparr>r = 1, g = 1 / 2, b = 1 / 4\<rparr>)\<rparr>"

definition oddView :: View where
  "oddView = exampleView\<lparr>project := (\<lambda>ray. (0, 50)), imageIn_Width := 101, imageIn_Height := 101\<rparr>"

definition rimView :: View where
  "rimView = exampleView\<lparr>project := (\<lambda>ray. (50, 0))\<rparr>"

definition exampleCell :: RGBAfColor where
  "exampleCell = \<lparr>r = 3, g = 2, b = 1, a = 4\<rparr>"

text \<open>
  The same camera with another colour; the same camera projecting to the centre of its
  image; no masking; masking with the transition size \<open>-10\<close>.
\<close>

definition otherView :: View where
  "otherView = exampleView\<lparr>getViewId := 1, sampler := (\<lambda>y x. \<lparr>r = 0, g = 1, b = 1 / 4\<rparr>)\<rparr>"

definition centreView :: View where
  "centreView =
     \<lparr>getViewId = 0, getWidth = 100, getHeight = 100,
      getMetadataOrientation = OTHER_ORIENTATION, isPoseAndIntrinsicDefined = True,
      depth = (\<lambda>ray. snd (snd ray)), project = (\<lambda>ray. (50, 50)),
      imageIn_Width = 100, imageIn_Height = 100, imageIn_Readable = True,
      sampler = (\<lambda>y x. \<lparr>r = 1, g = 1 / 2, b = 1 / 4\<rparr>)\<rparr>"

definition plainConfig :: Config where
  "plainConfig =
     \<lparr>sfmDataFilename = ''scene.sfm'', outputPanorama = ''pano.exr'', scaleFactor = 0.2,
      fisheyeMasking = False, fisheyeMaskingMargin = 0.05, transitionSize = 10\<rparr>"

definition negativeTransitionConfig :: Config where
  "negativeTransitionConfig =
     \<lparr>sfmDataFilename = ''scene.sfm'', outputPanorama = ''pano.exr'', scaleFactor = 0.2,
      fisheyeMasking = True, fisheyeMaskingMargin = 0, transitionSize = - 10\<rparr>"

text \<open>
  Two valid views of 1000 by 500 pixels, the first with a normal tag and the second with a
  rotated one; a command line that asks for fisheye masking with the transition size
  \<open>-10\<close>.
\<close>

definition landscapeView :: View where
  "landscapeView =
     \<lparr>getViewId = 0, getWidth = 1000, getHeight = 500,
      getMetadataOrientation = OTHER_ORIENTATION, isPoseAndIntrinsicDefined = True,
      depth = (\<lambda>ray. snd (snd ray)), project = (\<lambda>ray. (50, 50)),
      imageIn_Width = 1000, imageIn_Height = 500, imageIn_Readable = True,
      sampler = (\<lambda>y x. \<lparr>r = 1, g = 1 / 2, b = 1 / 4\<rparr>)\<rparr>"

definition portraitView :: View where
  "portraitView = landscapeView\<lparr>getViewId := 1, getMetadataOrientation := RIGHT\<rparr>"

definition degenerateCmd :: CmdLine where
  "degenerateCmd =
     \<lparr>arg_input = Some ''scene.sfm'', arg_output = Some ''pano.exr'', arg_scaleFactor = None,
      arg_fisheyeMasking = Some True, arg_fisheyeMaskingMargin = Some 0,
      arg_transitionSize = Some (- 10), arg_verboseLevel = None\<rparr>"

text \<open>
  Fisheye masking with the transition size \<open>1025 / 2 ^ 28\<close> (a \<open>float\<close>, about
  \<open>3.8e-6\<close>) and with the transition size \<open>0\<close>; a command line that asks for the
  latter; an empty cell and a colour with \<open>float\<close> channels.
\<close>

definition tinyTransitionConfig :: Config where
  "tinyTransitionConfig =
     \<lparr>sfmDataFilename = ''scene.sfm'', outputPanorama = ''pano.exr'', scaleFactor = 0.2,
      fisheyeMasking = True, fisheyeMaskingMargin = 0, transitionSize = 1025 / 2 ^ 28\<rparr>"

definition zeroTransitionConfig :: Config where
  "zeroTransitionConfig =
     \<lparr>sfmDataFilename = ''scene.sfm'', outputPanorama = ''pano.exr'', scaleFactor = 0.2,
      fisheyeMasking = True, fisheyeMaskingMargin = 0, transitionSize = 0\<rparr>"

definition zeroTransitionCmd :: CmdLine where
  "zeroTransitionCmd =
     \<lparr>arg_input = Some ''scene.sfm'', arg_output = Some ''pano.exr'', arg_scaleFactor = None,
      arg_fisheyeMasking = Some True, arg_fisheyeMaskingMargin = Some 0,
      arg_transitionSize = Some 0, arg_verboseLevel = None\<rparr>"

definition emptyCell_f32 :: RGBAfColor_f32 where
  "emptyCell_f32 = \<lparr>r32 = Finite 0, g32 = Finite 0, b32 = Finite 0, a32 = Finite 0\<rparr>"

definition exampleColor_f32 :: RGBfColor_f32 where
  "exampleColor_f32 = \<lparr>r32 = Finite 1, g32 = Finite (1 / 2), b32 = Finite (1 / 4)\<rparr>"

section \<open>Properties\<close>

subsection \<open>Rounding\<close>

text \<open>
  Rounding to nearest is monotone, exact on the numbers of the format, and its results
  are numbers of the format.
\<close>

lemma rne_of_int [simp]: "rne (real_of_int n) = n"
  by (simp add: rne_def)

lemma rne_lower: "\<lfloor>z\<rfloor> \<le> rne z"
  by (simp add: rne_def Let_def)

lemma rne_upper: "rne z \<le> \<lfloor>z\<rfloor> + 1"
  by (simp add: rne_def Let_def)

lemma rne_error: "\<bar>real_of_int (rne z) - z\<bar> \<le> 1 / 2"
proof -
  have "real_of_int \<lfloor>z\<rfloor> \<le> z" and "z < real_of_int \<lfloor>z\<rfloor> + 1"
    by linarith+
  then show ?thesis
    by (auto simp: rne_def Let_def)
qed

lemma rne_mono: "z \<le> z' \<Longrightarrow> rne z \<le> rne z'"
proof -
  assume le: "z \<le> z'"
  then have fl: "\<lfloor>z\<rfloor> \<le> \<lfloor>z'\<rfloor>" by (rule floor_mono)
  show ?thesis
  proof (cases "\<lfloor>z\<rfloor> = \<lfloor>z'\<rfloor>")
    case True
    then show ?thesis using le by (auto simp: rne_def Let_def)
  next
    case False
    with fl have "\<lfloor>z\<rfloor> + 1 \<le> \<lfloor>z'\<rfloor>" by simp
    with rne_upper [of z] rne_lower [of z'] show ?thesis by linarith
  qed
qed

lemma rne_near: "\<bar>z - real_of_int N\<bar> < 1 / 2 \<Longrightarrow> rne z = N"
proof -
  assume near: "\<bar>z - real_of_int N\<bar> < 1 / 2"
  show ?thesis
  proof (cases "real_of_int N \<le> z")
    case True
    with near have "\<lfloor>z\<rfloor> = N" by (intro floor_unique) linarith+
    with near True show ?thesis by (simp add: rne_def Let_def)
  next
    case False
    have "real_of_int (N - 1) \<le> z" and "z < real_of_int (N - 1) + 1"
      using near False by auto
    then have f: "\<lfloor>z\<rfloor> = N - 1" by (rule floor_unique)
    have "- (1 / 2) < z - real_of_int N"
      using near by linarith
    then have "1 / 2 < z - real_of_int (N - 1)"
      by simp
    then show ?thesis unfolding rne_def Let_def f by simp
  qed
qed

lemma rne_0 [simp]: "rne 0 = 0"
  using rne_of_int [of 0] by simp

lemma rne_numeral [simp]: "rne (numeral n) = numeral n"
  using rne_of_int [of "numeral n"] by simp

lemma rne_nonneg: "0 \<le> z \<Longrightarrow> 0 \<le> rne z"
  using rne_mono [of 0 z] by simp

lemma binade_bounds:
  assumes "0 < x"
  shows "2 powi \<lfloor>log 2 x\<rfloor> \<le> x" and "x < 2 powi (\<lfloor>log 2 x\<rfloor> + 1)"
proof -
  have "2 powr real_of_int \<lfloor>log 2 x\<rfloor> \<le> x \<and> x < 2 powr (real_of_int \<lfloor>log 2 x\<rfloor> + 1)"
    using floor_log_eq_powr_iff [of x 2 "\<lfloor>log 2 x\<rfloor>"] assms by simp
  moreover have "2 powr real_of_int \<lfloor>log 2 x\<rfloor> = 2 powi \<lfloor>log 2 x\<rfloor>"
    by (rule powr_real_of_int') simp_all
  moreover have "2 powr (real_of_int \<lfloor>log 2 x\<rfloor> + 1) = 2 powi (\<lfloor>log 2 x\<rfloor> + 1)"
    using powr_real_of_int' [of 2 "\<lfloor>log 2 x\<rfloor> + 1"] by simp
  ultimately show "2 powi \<lfloor>log 2 x\<rfloor> \<le> x" and "x < 2 powi (\<lfloor>log 2 x\<rfloor> + 1)"
    by simp_all
qed

lemma floor_log2_eq:
  assumes "0 < x" and "2 powi e \<le> x" and "x < 2 powi (e + 1)"
  shows "\<lfloor>log 2 x\<rfloor> = e"
proof -
  have "2 powr real_of_int e = 2 powi e"
    by (rule powr_real_of_int') simp_all
  moreover have "2 powr (real_of_int e + 1) = 2 powi (e + 1)"
    using powr_real_of_int' [of 2 "e + 1"] by simp
  ultimately show ?thesis
    using floor_log_eq_powr_iff [of x 2 e] assms by simp
qed

lemma floor_log2_mono: "0 < x \<Longrightarrow> x \<le> y \<Longrightarrow> \<lfloor>log 2 x\<rfloor> \<le> \<lfloor>log 2 y\<rfloor>"
  by (intro floor_mono) simp

lemma ulp_exponent_mono:
  "0 < x \<Longrightarrow> x \<le> y \<Longrightarrow> ulp_exponent p emin x \<le> ulp_exponent p emin y"
  using floor_log2_mono [of x y] by (simp add: ulp_exponent_def)

lemma ulp_exponent_pos:
  "0 < x \<Longrightarrow> ulp_exponent p emin x = max \<lfloor>log 2 x\<rfloor> emin - (int p - 1)"
  by (simp add: ulp_exponent_def)

lemma ulp_exponent_uminus [simp]: "ulp_exponent p emin (- x) = ulp_exponent p emin x"
  by (simp add: ulp_exponent_def)

lemma rnd_0 [simp]: "rnd p emin 0 = 0"
  by (simp add: rnd_def)

lemma rnd_uminus: "rnd p emin (- x) = - rnd p emin x"
  by (simp add: rnd_def Let_def sgn_minus)

lemma rnd_pos:
  "0 < x \<Longrightarrow>
   rnd p emin x =
     2 powi ulp_exponent p emin x * real_of_int (rne (x / 2 powi ulp_exponent p emin x))"
  by (simp add: rnd_def Let_def)

lemma rnd_nonneg: "0 \<le> x \<Longrightarrow> 0 \<le> rnd p emin x"
proof (cases "x = 0")
  case True
  then show ?thesis by simp
next
  case False
  assume "0 \<le> x"
  with False have x: "0 < x" by simp
  have "0 \<le> x / 2 powi ulp_exponent p emin x"
    using x by simp
  then have "0 \<le> rne (x / 2 powi ulp_exponent p emin x)"
    by (rule rne_nonneg)
  then show ?thesis
    unfolding rnd_pos [OF x] by simp
qed

text \<open>The scaled significand of a positive number lies below \<open>2 ^ p\<close>, and at or above
  \<open>2 ^ (p - 1)\<close> in the normal range.\<close>

lemma scaled_upper:
  assumes "0 < x" and "1 \<le> p"
  shows "x / 2 powi ulp_exponent p emin x < 2 ^ p"
proof -
  let ?e = "\<lfloor>log 2 x\<rfloor>"
  let ?k = "ulp_exponent p emin x"
  have "x < 2 powi (?e + 1)"
    using assms(1) by (rule binade_bounds)
  also have "(2::real) powi (?e + 1) \<le> 2 powi (?k + int p)"
    using assms(1) by (intro power_int_increasing) (simp_all add: ulp_exponent_pos)
  also have "(2::real) powi (?k + int p) = 2 powi ?k * 2 ^ p"
    by (simp add: power_int_add)
  finally show ?thesis
    by (simp add: field_simps)
qed

lemma scaled_lower:
  assumes "0 < x" and "emin \<le> \<lfloor>log 2 x\<rfloor>" and "1 \<le> p"
  shows "2 ^ (p - 1) \<le> x / 2 powi ulp_exponent p emin x"
proof -
  let ?e = "\<lfloor>log 2 x\<rfloor>"
  let ?k = "ulp_exponent p emin x"
  have k: "?k = ?e - (int p - 1)"
    using assms(1,2) by (simp add: ulp_exponent_pos)
  have "(2::real) powi ?k * 2 ^ (p - 1) = 2 powi (?k + int (p - 1))"
    by (simp add: power_int_add)
  also have "?k + int (p - 1) = ?e"
    using assms(3) by (simp add: k)
  also have "2 powi ?e \<le> x"
    using assms(1) by (rule binade_bounds)
  finally show ?thesis
    by (simp add: field_simps)
qed

lemma rnd_le_pow:
  assumes "0 < x" and "1 \<le> p"
  shows "rnd p emin x \<le> 2 powi (ulp_exponent p emin x + int p)"
proof -
  let ?k = "ulp_exponent p emin x"
  have "rne (x / 2 powi ?k) \<le> rne (2 ^ p)"
    using scaled_upper [OF assms, of emin] by (intro rne_mono) simp
  also have "rne (2 ^ p) = 2 ^ p"
    using rne_of_int [of "2 ^ p"] by simp
  finally have "real_of_int (rne (x / 2 powi ?k)) \<le> 2 ^ p"
    by (metis of_int_le_iff of_int_numeral of_int_power)
  then have "2 powi ?k * real_of_int (rne (x / 2 powi ?k)) \<le> 2 powi ?k * 2 ^ p"
    by (intro mult_left_mono) simp_all
  then show ?thesis
    unfolding rnd_pos [OF assms(1)] by (simp add: power_int_add)
qed

lemma rnd_ge_pow:
  assumes "0 < x" and "emin \<le> \<lfloor>log 2 x\<rfloor>" and "1 \<le> p"
  shows "2 powi \<lfloor>log 2 x\<rfloor> \<le> rnd p emin x"
proof -
  let ?e = "\<lfloor>log 2 x\<rfloor>"
  let ?k = "ulp_exponent p emin x"
  have k: "?k = ?e - (int p - 1)"
    using assms(1,2) by (simp add: ulp_exponent_pos)
  have "rne (2 ^ (p - 1)) \<le> rne (x / 2 powi ?k)"
    using scaled_lower [OF assms] by (intro rne_mono) simp
  moreover have "rne (2 ^ (p - 1)) = 2 ^ (p - 1)"
    using rne_of_int [of "2 ^ (p - 1)"] by simp
  ultimately have "(2::int) ^ (p - 1) \<le> rne (x / 2 powi ?k)"
    by simp
  then have "real_of_int (2 ^ (p - 1)) \<le> real_of_int (rne (x / 2 powi ?k))"
    by (simp only: of_int_le_iff)
  then have m: "2 ^ (p - 1) \<le> real_of_int (rne (x / 2 powi ?k))"
    by simp
  have e: "?e = ?k + int (p - 1)"
    using assms(3) by (simp add: k)
  have "(2::real) powi ?e = 2 powi ?k * 2 ^ (p - 1)"
    by (subst e) (simp add: power_int_add)
  also have "\<dots> \<le> 2 powi ?k * real_of_int (rne (x / 2 powi ?k))"
    using m by (intro mult_left_mono) simp_all
  finally show ?thesis
    unfolding rnd_pos [OF assms(1)] .
qed

lemma rnd_mono_pos:
  assumes "0 < x" and "x \<le> y" and "1 \<le> p"
  shows "rnd p emin x \<le> rnd p emin y"
proof -
  have y: "0 < y" using assms by simp
  let ?kx = "ulp_exponent p emin x" and ?ky = "ulp_exponent p emin y"
  have kk: "?kx \<le> ?ky"
    using assms(1,2) by (rule ulp_exponent_mono)
  show ?thesis
  proof (cases "?kx = ?ky")
    case True
    have "x / 2 powi ?ky \<le> y / 2 powi ?ky"
      using assms(2) by (simp add: divide_right_mono)
    then have "rne (x / 2 powi ?ky) \<le> rne (y / 2 powi ?ky)"
      by (rule rne_mono)
    then have "2 powi ?ky * real_of_int (rne (x / 2 powi ?ky))
        \<le> 2 powi ?ky * real_of_int (rne (y / 2 powi ?ky))"
      by (intro mult_left_mono) simp_all
    then show ?thesis
      unfolding rnd_pos [OF assms(1)] rnd_pos [OF y] True .
  next
    case False
    with kk have lt: "?kx < ?ky" by simp
    then have ey: "emin < \<lfloor>log 2 y\<rfloor>" and eq: "?ky = \<lfloor>log 2 y\<rfloor> - (int p - 1)"
      using assms(1) y by (auto simp: ulp_exponent_pos)
    have "rnd p emin x \<le> 2 powi (?kx + int p)"
      using assms(1,3) by (rule rnd_le_pow)
    also have "(2::real) powi (?kx + int p) \<le> 2 powi \<lfloor>log 2 y\<rfloor>"
      using lt eq by (intro power_int_increasing) simp_all
    also have "2 powi \<lfloor>log 2 y\<rfloor> \<le> rnd p emin y"
      using y ey assms(3) by (intro rnd_ge_pow) simp_all
    finally show ?thesis .
  qed
qed

lemma rnd_mono:
  assumes "x \<le> y" and "1 \<le> p"
  shows "rnd p emin x \<le> rnd p emin y"
proof -
  consider "0 < x" | "x \<le> 0" "0 \<le> y" | "y < 0" by linarith
  then show ?thesis
  proof cases
    case 1
    then show ?thesis using assms by (intro rnd_mono_pos)
  next
    case 2
    have "rnd p emin x \<le> 0"
      using rnd_nonneg [of "- x" p emin] 2(1) by (simp add: rnd_uminus)
    also have "0 \<le> rnd p emin y"
      using 2(2) by (rule rnd_nonneg)
    finally show ?thesis .
  next
    case 3
    then have "rnd p emin (- y) \<le> rnd p emin (- x)"
      using assms by (intro rnd_mono_pos) simp_all
    then show ?thesis by (simp add: rnd_uminus)
  qed
qed

lemma pow2_less_imp: "(2::real) powi i < 2 powi j \<Longrightarrow> i < j"
proof (rule ccontr)
  assume lt: "(2::real) powi i < 2 powi j" and "\<not> i < j"
  then have "j \<le> i" by simp
  then have "(2::real) powi j \<le> 2 powi i"
    by (intro power_int_increasing) simp_all
  with lt show False by simp
qed

lemma scale_int:
  assumes "K \<le> k"
  shows "real_of_int m * 2 powi k = 2 powi K * real_of_int (m * 2 ^ nat (k - K))"
proof -
  have "(2::real) powi k = 2 powi (K + (k - K))" by simp
  also have "\<dots> = 2 powi K * 2 powi (k - K)"
    by (rule power_int_add) simp
  also have "(2::real) powi (k - K) = 2 ^ nat (k - K)"
    using assms by (simp add: power_int_nonneg_exp)
  finally show ?thesis by simp
qed

text \<open>A representable number at or above a positive \<open>y\<close> is a multiple of the unit in the
  last place of \<open>y\<close>.\<close>

lemma multiple_of_ulp:
  assumes "representable p emin m" and "0 < y" and "y \<le> m"
  shows "\<exists>N. m = 2 powi ulp_exponent p emin y * real_of_int N"
proof -
  from assms(1) obtain mm k where m: "m = real_of_int mm * 2 powi k" and mm: "\<bar>mm\<bar> < 2 ^ p"
    and k: "emin - (int p - 1) \<le> k"
    unfolding representable_def by blast
  let ?e = "\<lfloor>log 2 y\<rfloor>"
  have "2 powi ?e \<le> y"
    using assms(2) by (rule binade_bounds)
  also have "y \<le> m" by fact
  also have "m \<le> \<bar>real_of_int mm\<bar> * 2 powi k"
    unfolding m by (intro mult_right_mono) simp_all
  also have "\<bar>real_of_int mm\<bar> * 2 powi k < 2 ^ p * 2 powi k"
  proof (intro mult_strict_right_mono)
    have "real_of_int \<bar>mm\<bar> < real_of_int (2 ^ p)"
      using mm by (simp only: of_int_less_iff)
    then show "\<bar>real_of_int mm\<bar> < 2 ^ p" by simp
  qed simp
  also have "(2::real) ^ p * 2 powi k = 2 powi (int p + k)"
    by (simp add: power_int_add)
  finally have "?e < int p + k"
    by (rule pow2_less_imp)
  with k have "ulp_exponent p emin y \<le> k"
    using assms(2) by (simp add: ulp_exponent_pos)
  from scale_int [OF this, of mm] show ?thesis
    unfolding m by blast
qed

lemma representable_uminus: "representable p emin (- x) \<longleftrightarrow> representable p emin x"
proof -
  have "representable p emin x \<Longrightarrow> representable p emin (- x)" for x
  proof -
    assume "representable p emin x"
    then obtain m k where "x = real_of_int m * 2 powi k" "\<bar>m\<bar> < 2 ^ p" "emin - (int p - 1) \<le> k"
      unfolding representable_def by blast
    then have "- x = real_of_int (- m) * 2 powi k \<and> \<bar>- m\<bar> < 2 ^ p \<and> emin - (int p - 1) \<le> k"
      by simp
    then show ?thesis unfolding representable_def by blast
  qed
  from this [of x] this [of "- x"] show ?thesis by auto
qed

lemma rnd_exact:
  assumes "representable p emin x"
  shows "rnd p emin x = x"
proof -
  have pos: "rnd p emin y = y" if "representable p emin y" and "0 < y" for y
  proof -
    from multiple_of_ulp [OF that(1,2)] obtain N
      where N: "y = 2 powi ulp_exponent p emin y * real_of_int N" by auto
    then have "y / 2 powi ulp_exponent p emin y = real_of_int N"
      by (simp add: field_simps)
    then show ?thesis
      using N by (simp add: rnd_pos [OF that(2)])
  qed
  consider "0 < x" | "x = 0" | "x < 0" by linarith
  then show ?thesis
  proof cases
    case 1
    with assms show ?thesis by (intro pos)
  next
    case 2
    then show ?thesis by simp
  next
    case 3
    then have "rnd p emin (- x) = - x"
      using assms by (intro pos) (simp_all add: representable_uminus)
    then show ?thesis by (simp add: rnd_uminus)
  qed
qed

lemma representable_int_pow:
  "\<bar>m\<bar> < 2 ^ p \<Longrightarrow> emin - (int p - 1) \<le> k \<Longrightarrow> representable p emin (real_of_int m * 2 powi k)"
  unfolding representable_def by blast

lemma rnd_representable:
  assumes "1 \<le> p"
  shows "representable p emin (rnd p emin x)"
proof -
  have pos: "representable p emin (rnd p emin y)" if "0 < y" for y
  proof -
    let ?k = "ulp_exponent p emin y"
    let ?n = "rne (y / 2 powi ?k)"
    have r: "rnd p emin y = real_of_int ?n * 2 powi ?k"
      by (simp add: rnd_pos [OF that])
    have k: "emin - (int p - 1) \<le> ?k"
      by (simp add: ulp_exponent_def)
    have n0: "0 \<le> ?n"
      using that by (intro rne_nonneg) simp
    have "?n \<le> rne (2 ^ p)"
      using scaled_upper [OF that assms, of emin] by (intro rne_mono) simp
    also have "rne (2 ^ p) = 2 ^ p"
      using rne_of_int [of "2 ^ p"] by simp
    finally have n1: "?n \<le> 2 ^ p" .
    show ?thesis
    proof (cases "?n = 2 ^ p")
      case False
      with n0 n1 have "\<bar>?n\<bar> < 2 ^ p" by simp
      then show ?thesis unfolding r using k by (rule representable_int_pow)
    next
      case True
      have "real_of_int ?n * 2 powi ?k = real_of_int (2 ^ (p - 1)) * 2 powi (?k + 1)"
      proof -
        have "(2::real) ^ p = 2 ^ (p - 1) * 2"
          using assms by (cases p) simp_all
        then show ?thesis
          unfolding True by (simp add: power_int_add)
      qed
      moreover have "\<bar>(2::int) ^ (p - 1)\<bar> < 2 ^ p"
        using assms by simp
      moreover have "emin - (int p - 1) \<le> ?k + 1"
        using k by simp
      ultimately show ?thesis
        unfolding r using representable_int_pow [of "2 ^ (p - 1)" p emin "?k + 1"] by simp
    qed
  qed
  consider "0 < x" | "x = 0" | "x < 0" by linarith
  then show ?thesis
  proof cases
    case 1
    then show ?thesis by (rule pos)
  next
    case 2
    have "representable p emin (real_of_int 0 * 2 powi (emin - (int p - 1)))"
      by (rule representable_int_pow) simp_all
    with 2 show ?thesis by simp
  next
    case 3
    then have "representable p emin (rnd p emin (- x))"
      by (intro pos) simp
    then show ?thesis by (simp add: rnd_uminus representable_uminus)
  qed
qed

lemma rnd_in_binade:
  assumes "0 < x" and "2 powi e \<le> x" and "x < 2 powi (e + 1)" and "emin \<le> e"
  shows "rnd p emin x =
           2 powi (e - (int p - 1)) * real_of_int (rne (x / 2 powi (e - (int p - 1))))"
proof -
  have "\<lfloor>log 2 x\<rfloor> = e"
    using assms(1-3) by (rule floor_log2_eq)
  then have "ulp_exponent p emin x = e - (int p - 1)"
    using assms(1,4) by (simp add: ulp_exponent_pos)
  then show ?thesis
    by (simp add: rnd_pos [OF assms(1)])
qed

text \<open>Rounding \<open>m - h\<close> for a representable \<open>m\<close> moves away from \<open>m\<close> by at most \<open>2 h\<close>.\<close>

lemma rnd_sub_near:
  assumes "representable p emin m" and "0 < y" and "y \<le> m"
  shows "m - rnd p emin y \<le> 2 * (m - y)"
proof -
  let ?k = "ulp_exponent p emin y"
  from multiple_of_ulp [OF assms] obtain N where N: "m = 2 powi ?k * real_of_int N"
    by auto
  have r: "rnd p emin y = 2 powi ?k * real_of_int (rne (y / 2 powi ?k))"
    using assms(2) by (rule rnd_pos)
  have mk: "m / 2 powi ?k = real_of_int N"
    using N by (simp add: field_simps)
  show ?thesis
  proof (cases "(m - y) / 2 powi ?k < 1 / 2")
    case True
    define d where "d = (m - y) / 2 powi ?k"
    have "y / 2 powi ?k - real_of_int N = - d"
      unfolding mk [symmetric] d_def by (simp add: field_simps)
    moreover have "0 \<le> d"
      unfolding d_def using assms(3) by simp
    moreover have "d < 1 / 2"
      unfolding d_def using True .
    ultimately have "\<bar>y / 2 powi ?k - real_of_int N\<bar> < 1 / 2"
      by linarith
    then have "rne (y / 2 powi ?k) = N"
      by (rule rne_near)
    then have "rnd p emin y = m"
      using r N by simp
    then show ?thesis using assms(3) by simp
  next
    case False
    then have half: "2 powi ?k / 2 \<le> m - y"
      by (simp add: field_simps)
    define u :: real where "u = 2 powi ?k"
    define n where "n = real_of_int (rne (y / u))"
    have u: "0 < u" by (simp add: u_def)
    have "y / u - 1 / 2 \<le> n"
      unfolding n_def using rne_error [of "y / u"] by linarith
    then have "(y / u - 1 / 2) * u \<le> n * u"
      using u by (intro mult_right_mono) simp_all
    moreover have "(y / u - 1 / 2) * u = y - u / 2"
      using u by (simp add: field_simps)
    ultimately have "y - u / 2 \<le> u * n"
      by (simp add: mult.commute)
    then have lo: "y - u / 2 \<le> rnd p emin y"
      unfolding r n_def u_def .
    have "u / 2 \<le> m - y"
      using half by (simp add: u_def)
    with lo show ?thesis by argo
  qed
qed

lemma fle_refl_iff [simp]: "fle v v \<longleftrightarrow> v \<noteq> NaN"
  by (cases v) simp_all

lemma fle_NaN [simp]: "\<not> fle v NaN"
  by (cases v) simp_all

lemma fle_trans: "fle u v \<Longrightarrow> fle v w \<Longrightarrow> fle u w"
  by (cases u; cases v; cases w) simp_all

lemma round_to_not_NaN [simp]: "round_to p emin emax x \<noteq> NaN"
  by (simp add: round_to_def Let_def)

lemma round_to_mono:
  assumes "x \<le> y" and "1 \<le> p"
  shows "fle (round_to p emin emax x) (round_to p emin emax y)"
proof -
  have "rnd p emin x \<le> rnd p emin y"
    using assms by (rule rnd_mono)
  moreover have "0 < (2::real) powi (emax + 1)" by simp
  ultimately show ?thesis
    unfolding round_to_def Let_def by (auto simp: abs_if split: if_splits)
qed

lemma round_to_exact:
  "representable p emin x \<Longrightarrow> \<bar>x\<bar> < 2 powi (emax + 1) \<Longrightarrow> round_to p emin emax x = Finite x"
  by (simp add: round_to_def rnd_exact)

lemma round_to_Finite:
  "round_to p emin emax x = Finite y \<Longrightarrow> 1 \<le> p \<Longrightarrow>
   y = rnd p emin x \<and> representable p emin y \<and> \<bar>y\<bar> < 2 powi (emax + 1)"
  by (auto simp: round_to_def Let_def rnd_representable split: if_splits)

lemmas round32_mono = round_to_mono [where p = 24 and emin = "- 126" and emax = 127, folded round32_def, simplified]

lemma round32_dyadic:
  assumes "\<bar>m\<bar> < 2 ^ 24" and "- 149 \<le> k" and "\<bar>real_of_int m * 2 powi k\<bar> < 2 ^ 128"
  shows "round32 (real_of_int m * 2 powi k) = Finite (real_of_int m * 2 powi k)"
  unfolding round32_def
  using assms by (intro round_to_exact representable_int_pow) simp_all

lemma round32_of_int: "\<bar>m\<bar> < 2 ^ 24 \<Longrightarrow> round32 (real_of_int m) = Finite (real_of_int m)"
proof -
  assume m: "\<bar>m\<bar> < 2 ^ 24"
  then have "real_of_int \<bar>m\<bar> < real_of_int (2 ^ 24)"
    by (simp only: of_int_less_iff)
  then have "\<bar>real_of_int m * 2 powi 0\<bar> < 2 ^ 128"
    by simp
  from round32_dyadic [OF m _ this] show ?thesis by simp
qed

lemma round32_0 [simp]: "round32 0 = Finite 0"
  using round32_of_int [of 0] by simp

lemma round32_1 [simp]: "round32 1 = Finite 1"
  using round32_of_int [of 1] by simp

lemma round32_numeral [simp]:
  "numeral n < (2::int) ^ 24 \<Longrightarrow> round32 (numeral n) = Finite (numeral n)"
  using round32_of_int [of "numeral n"] by simp

lemma round32_neg_numeral [simp]:
  "numeral n < (2::int) ^ 24 \<Longrightarrow> round32 (- numeral n) = Finite (- numeral n)"
  using round32_of_int [of "- numeral n"] by simp

lemma round32_pow2: "- 149 \<le> k \<Longrightarrow> k \<le> 127 \<Longrightarrow> round32 (2 powi k) = Finite (2 powi k)"
proof -
  assume k: "- 149 \<le> k" "k \<le> 127"
  have "(2::real) powi k \<le> 2 powi 127"
    using k by (intro power_int_increasing) simp_all
  then have "\<bar>real_of_int 1 * 2 powi k\<bar> < 2 ^ 128"
    by simp
  from round32_dyadic [OF _ k(1) this] show ?thesis by simp
qed

lemma fle_between:
  "fle (Finite lo) v \<Longrightarrow> fle v (Finite hi) \<Longrightarrow> \<exists>w. v = Finite w \<and> lo \<le> w \<and> w \<le> hi"
  by (cases v) simp_all

lemma round32_between:
  assumes "lo \<le> x" and "x \<le> hi" and "round32 lo = Finite lo" and "round32 hi = Finite hi"
  shows "\<exists>w. round32 x = Finite w \<and> lo \<le> w \<and> w \<le> hi"
proof -
  have "fle (round32 lo) (round32 x)" and "fle (round32 x) (round32 hi)"
    using assms(1,2) by (simp_all add: round32_mono)
  then show ?thesis
    unfolding assms(3,4) by (rule fle_between)
qed

lemma round32_one_plus_tiny:
  assumes "0 \<le> w" and "w \<le> 2 powi (- 25)"
  shows "round32 (1 + w) = Finite 1"
proof -
  have top: "round32 (1 + 2 powi (- 25)) = Finite 1"
  proof -
    let ?x = "1 + (2::real) powi (- 25)"
    have "rnd 24 (- 126) ?x = 2 powi (0 - (int 24 - 1)) * real_of_int (rne (?x / 2 powi (0 - (int 24 - 1))))"
      by (rule rnd_in_binade) (simp_all add: power_int_minus)
    moreover have "rne (?x / 2 powi (0 - (int 24 - 1))) = 2 ^ 23"
      by (rule rne_near) (simp add: power_int_minus)
    ultimately have "rnd 24 (- 126) ?x = 1"
      by (simp add: power_int_minus)
    then show ?thesis
      by (simp add: round32_def round_to_def)
  qed
  have "fle (round32 1) (round32 (1 + w))"
    using assms(1) by (intro round32_mono) simp
  moreover have "fle (round32 (1 + w)) (round32 (1 + 2 powi (- 25)))"
    using assms(2) by (intro round32_mono) simp
  ultimately have "\<exists>v. round32 (1 + w) = Finite v \<and> 1 \<le> v \<and> v \<le> 1"
    unfolding top by (simp add: fle_between)
  then show ?thesis by auto
qed

lemma round32_not_NaN [simp]: "round32 x \<noteq> NaN"
  by (simp add: round32_def)

lemma fle_PlusInf [simp]: "fle v PlusInf \<longleftrightarrow> v \<noteq> NaN"
  by (cases v) simp_all

lemma fle_MinusInf [simp]: "fle MinusInf v \<longleftrightarrow> v \<noteq> NaN"
  by (cases v) simp_all

lemma fle_round32_lower: "lo \<le> x \<Longrightarrow> round32 lo = Finite lo \<Longrightarrow> fle (Finite lo) (round32 x)"
  using round32_mono [of lo x] by simp

lemma fle_round32_upper: "x \<le> hi \<Longrightarrow> round32 hi = Finite hi \<Longrightarrow> fle (round32 x) (Finite hi)"
  using round32_mono [of x hi] by simp

lemma fdiv_mono_pos:
  assumes "fle v w" and "0 < t"
  shows "fle (fdiv round32 v (Finite t)) (fdiv round32 w (Finite t))"
proof (cases v; cases w)
  fix x y assume "v = Finite x" "w = Finite y"
  with assms show ?thesis
    by (simp add: round32_mono divide_right_mono)
qed (use assms in simp_all)

lemma fmul10_mono:
  assumes "fle v w"
  shows "fle (fmul round32 (Finite 10) v) (fmul round32 (Finite 10) w)"
proof (cases v; cases w)
  fix x y assume "v = Finite x" "w = Finite y"
  with assms show ?thesis
    by (simp add: round32_mono)
qed (use assms in simp_all)

lemma fexp_mono:
  assumes "fle v w"
  shows "fle (fexp round32 v) (fexp round32 w)"
proof (cases v; cases w)
  fix x y assume "v = Finite x" "w = Finite y"
  with assms show ?thesis
    by (simp add: round32_mono)
next
  fix y assume "v = MinusInf" "w = Finite y"
  then show ?thesis
    using fle_round32_lower [of 0 "exp y"] by simp
qed (use assms in simp_all)

lemma fexp_nonneg: "v \<noteq> NaN \<Longrightarrow> fle (Finite 0) (fexp round32 v)"
  using fle_round32_lower [of 0 "exp x" for x] by (cases v) simp_all

lemma fadd1_mono:
  assumes "fle v w"
  shows "fle (fadd round32 (Finite 1) v) (fadd round32 (Finite 1) w)"
proof (cases v; cases w)
  fix x y assume "v = Finite x" "w = Finite y"
  with assms show ?thesis
    by (simp add: round32_mono)
qed (use assms in simp_all)

lemma fadd1_ge1: "fle (Finite 0) v \<Longrightarrow> fle (Finite 1) (fadd round32 (Finite 1) v)"
  using fle_round32_lower [of 1 "1 + x" for x] by (cases v) simp_all

lemma frecip_anti:
  assumes "fle (Finite 1) v" and "fle v w"
  shows "fle (fdiv round32 (Finite 1) w) (fdiv round32 (Finite 1) v)"
proof (cases v; cases w)
  fix x y assume vw: "v = Finite x" "w = Finite y"
  with assms have "1 \<le> x" "x \<le> y" by simp_all
  then have "1 / y \<le> 1 / x" and "x \<noteq> 0" and "y \<noteq> 0"
    by (simp_all add: frac_le)
  then show ?thesis
    unfolding vw by (simp add: round32_mono)
next
  fix x assume vw: "v = Finite x" "w = PlusInf"
  with assms have "1 \<le> x" by simp
  then have "0 \<le> 1 / x" and "x \<noteq> 0" by simp_all
  then show ?thesis
    unfolding vw using fle_round32_lower [of 0 "1 / x"] by simp
qed (use assms in simp_all)

lemma frecip_range:
  assumes "fle (Finite 1) v"
  shows "\<exists>u. fdiv round32 (Finite 1) v = Finite u \<and> 0 \<le> u \<and> u \<le> 1"
proof (cases v)
  case (Finite x)
  with assms have x: "1 \<le> x" by simp
  then have "0 \<le> 1 / x" "1 / x \<le> 1" by simp_all
  then have "\<exists>u. round32 (1 / x) = Finite u \<and> 0 \<le> u \<and> u \<le> 1"
    by (intro round32_between) simp_all
  with x Finite show ?thesis by simp
qed (use assms in simp_all)

lemmas round64_mono = round_to_mono [where p = 53 and emin = "- 1022" and emax = 1023, folded round64_def, simplified]

lemma round64_not_NaN [simp]: "round64 x \<noteq> NaN"
  by (simp add: round64_def)

lemma round64_dyadic:
  assumes "\<bar>m\<bar> < 2 ^ 53" and "- 1074 \<le> k" and "\<bar>real_of_int m * 2 powi k\<bar> < 2 ^ 1024"
  shows "round64 (real_of_int m * 2 powi k) = Finite (real_of_int m * 2 powi k)"
  unfolding round64_def
  using assms by (intro round_to_exact representable_int_pow) simp_all

lemma round64_of_int: "\<bar>m\<bar> < 2 ^ 53 \<Longrightarrow> round64 (real_of_int m) = Finite (real_of_int m)"
proof -
  assume m: "\<bar>m\<bar> < 2 ^ 53"
  then have "real_of_int \<bar>m\<bar> < real_of_int (2 ^ 53)"
    by (simp only: of_int_less_iff)
  then have "\<bar>real_of_int m * 2 powi 0\<bar> < 2 ^ 1024"
    by simp
  from round64_dyadic [OF m _ this] show ?thesis by simp
qed

lemma round64_0 [simp]: "round64 0 = Finite 0"
  using round64_of_int [of 0] by simp

lemma round64_1 [simp]: "round64 1 = Finite 1"
  using round64_of_int [of 1] by simp

lemma round64_numeral [simp]:
  "numeral n < (2::int) ^ 53 \<Longrightarrow> round64 (numeral n) = Finite (numeral n)"
  using round64_of_int [of "numeral n"] by simp

lemma round64_neg_numeral [simp]:
  "numeral n < (2::int) ^ 53 \<Longrightarrow> round64 (- numeral n) = Finite (- numeral n)"
  using round64_of_int [of "- numeral n"] by simp

lemma round64_pow2: "- 1074 \<le> k \<Longrightarrow> k \<le> 1023 \<Longrightarrow> round64 (2 powi k) = Finite (2 powi k)"
proof -
  assume k: "- 1074 \<le> k" "k \<le> 1023"
  have "(2::real) powi k \<le> 2 powi 1023"
    using k by (intro power_int_increasing) simp_all
  then have "\<bar>real_of_int 1 * 2 powi k\<bar> < 2 ^ 1024"
    by simp
  from round64_dyadic [OF _ k(1) this] show ?thesis by simp
qed

lemma round64_between:
  assumes "lo \<le> x" and "x \<le> hi" and "round64 lo = Finite lo" and "round64 hi = Finite hi"
  shows "\<exists>w. round64 x = Finite w \<and> lo \<le> w \<and> w \<le> hi"
proof -
  have "fle (round64 lo) (round64 x)" and "fle (round64 x) (round64 hi)"
    using assms(1,2) by (simp_all add: round64_mono)
  then show ?thesis
    unfolding assms(3,4) by (rule fle_between)
qed

lemma representable_half:
  assumes "representable p emin x" and "2 powi (emin + 1) \<le> \<bar>x\<bar>"
  shows "representable p emin (x / 2)"
proof -
  from assms(1) obtain m k where x: "x = real_of_int m * 2 powi k" and m: "\<bar>m\<bar> < 2 ^ p"
    and k: "emin - (int p - 1) \<le> k"
    unfolding representable_def by blast
  have "k \<noteq> emin - (int p - 1)"
  proof
    assume eq: "k = emin - (int p - 1)"
    have "real_of_int \<bar>m\<bar> < real_of_int (2 ^ p)"
      using m by (simp only: of_int_less_iff)
    then have "\<bar>real_of_int m\<bar> * 2 powi k < 2 ^ p * 2 powi k"
      by (intro mult_strict_right_mono) simp_all
    also have "(2::real) ^ p * 2 powi k = 2 powi (int p + k)"
      by (simp add: power_int_add)
    also have "int p + k = emin + 1"
      by (simp add: eq)
    finally have "\<bar>x\<bar> < 2 powi (emin + 1)"
      by (simp add: x abs_mult)
    with assms(2) show False by simp
  qed
  with k have k': "emin - (int p - 1) \<le> k - 1" by simp
  have "(2::real) powi k = 2 powi (k - 1 + 1)" by simp
  also have "\<dots> = 2 powi (k - 1) * 2"
    by (subst power_int_add) simp_all
  finally have "x / 2 = real_of_int m * 2 powi (k - 1)"
    by (simp add: x)
  with m k' show ?thesis
    unfolding representable_def by blast
qed

lemma representable_double:
  assumes "representable p emin x"
  shows "representable p emin (2 * x)"
proof -
  from assms obtain m k where x: "x = real_of_int m * 2 powi k" and m: "\<bar>m\<bar> < 2 ^ p"
    and k: "emin - (int p - 1) \<le> k"
    unfolding representable_def by blast
  have "(2::real) powi (k + 1) = 2 powi k * 2"
    by (subst power_int_add) simp_all
  then have "2 * x = real_of_int m * 2 powi (k + 1)"
    by (simp add: x)
  moreover have "emin - (int p - 1) \<le> k + 1"
    using k by simp
  ultimately show ?thesis
    using m unfolding representable_def by blast
qed

lemma round32_exact: "representable 24 (- 126) x \<Longrightarrow> \<bar>x\<bar> < 2 ^ 128 \<Longrightarrow> round32 x = Finite x"
  unfolding round32_def by (intro round_to_exact) simp_all

lemma round32_Finite:
  "round32 x = Finite y \<Longrightarrow> y = rnd 24 (- 126) x \<and> representable 24 (- 126) y \<and> \<bar>y\<bar> < 2 ^ 128"
proof -
  assume "round32 x = Finite y"
  then have "round_to 24 (- 126) 127 x = Finite y"
    by (simp only: round32_def)
  from round_to_Finite [OF this] show ?thesis
    by auto
qed

lemma to_float_Finite: "to_float v = Finite m \<Longrightarrow> representable 24 (- 126) m \<and> \<bar>m\<bar> < 2 ^ 128"
  by (cases v) (auto dest!: round32_Finite)

lemma round32_half_int: "\<bar>m\<bar> < 2 ^ 24 \<Longrightarrow> round32 (real_of_int m / 2) = Finite (real_of_int m / 2)"
  using round32_dyadic [of m "- 1"] by (simp add: power_int_minus)

lemma round64_half_int: "\<bar>m\<bar> < 2 ^ 24 \<Longrightarrow> round64 (real_of_int m / 2) = Finite (real_of_int m / 2)"
  using round64_dyadic [of m "- 1"] by (simp add: power_int_minus)

subsection \<open>The sigmoid\<close>

lemma sigmoid_pos: "0 < sigmoid x t mid"
  by (simp add: sigmoid_def add_pos_pos)

lemma sigmoid_antimono:
  assumes "0 < t" and "x \<le> y"
  shows "sigmoid y t mid \<le> sigmoid x t mid"
proof -
  have "exp (10 * ((x - mid) / t)) \<le> exp (10 * ((y - mid) / t))"
    using assms by (simp add: divide_right_mono)
  then have q: "1 + exp (10 * ((x - mid) / t)) \<le> 1 + exp (10 * ((y - mid) / t))"
    by simp
  have p: "0 < 1 + exp (10 * ((x - mid) / t))"
    by (simp add: add_pos_pos)
  show ?thesis
    unfolding sigmoid_def using p q by (simp add: frac_le)
qed

text \<open>
  Over the reals the formula is strictly decreasing for every width \<open>t > 0\<close>, and its value
  at the midpoint is one half.
\<close>

lemma sigmoid_real_strictly_decreasing:
  "0 < t \<Longrightarrow> x < y \<Longrightarrow> sigmoid y t mid < sigmoid x t mid"
proof -
  assume t: "0 < t" and xy: "x < y"
  have e: "exp (10 * ((x - mid) / t)) < exp (10 * ((y - mid) / t))"
    using t xy by (simp add: divide_strict_right_mono)
  have p: "0 < 1 + exp (10 * ((x - mid) / t))"
    by (simp add: add_pos_pos)
  have q: "1 + exp (10 * ((x - mid) / t)) < 1 + exp (10 * ((y - mid) / t))"
    using e by simp
  show "sigmoid y t mid < sigmoid x t mid"
    unfolding sigmoid_def using p q by (simp add: frac_less2)
qed

lemma sigmoid_real_mid: "sigmoid mid t mid = 1 / 2"
  by (simp add: sigmoid_def)

lemma exp_ge_pow2: "0 \<le> n \<Longrightarrow> 2 powi n \<le> exp (real_of_int n)"
proof -
  assume n: "0 \<le> n"
  have "(2::real) \<le> exp 1"
    using exp_ge_add_one_self [of "1::real"] by simp
  then have "(2::real) ^ nat n \<le> exp 1 ^ nat n"
    by (intro power_mono) simp_all
  also have "exp (1::real) ^ nat n = exp (real (nat n))"
    using exp_of_nat_mult [of "nat n" "1::real"] by simp
  finally show ?thesis
    using n by (simp add: power_int_nonneg_exp)
qed

lemma exp_neg_le_pow2: "0 \<le> n \<Longrightarrow> exp (- real_of_int n) \<le> 2 powi (- n)"
proof -
  assume n: "0 \<le> n"
  have "inverse (exp (real_of_int n)) \<le> inverse (2 powi n)"
    using exp_ge_pow2 [OF n] by (intro le_imp_inverse_le) simp_all
  then show ?thesis
    by (simp add: exp_minus power_int_minus)
qed

lemma exp_le_pow3: "exp (real n) \<le> 3 ^ n"
proof -
  have "exp (1::real) ^ n \<le> 3 ^ n"
    using exp_le by (intro power_mono) simp_all
  then show ?thesis
    using exp_of_nat_mult [of n "1::real"] by simp
qed

lemma sigmoid_f32_saturated:
  assumes "25 \<le> n" and "n \<le> 149" and "round32 (- real_of_int n / 10) = Finite q"
    and "10 * q = - real_of_int n" and "round32 (x - mid) = Finite (- real_of_int n)"
  shows "sigmoid_f32 (Finite x) (Finite 10) (Finite mid) = Finite 1"
proof -
  have s1: "fsub round32 (Finite x) (Finite mid) = Finite (- real_of_int n)"
    using assms(5) by (simp add: fsub_def)
  have s2: "fdiv round32 (Finite (- real_of_int n)) (Finite 10) = Finite q"
    using assms(3) by simp
  have "round32 (real_of_int (- n)) = Finite (real_of_int (- n))"
    using assms(1,2) by (intro round32_of_int) simp
  then have s3: "fmul round32 (Finite 10) (Finite q) = Finite (- real_of_int n)"
    by (simp add: assms(4))
  have "exp (- real_of_int n) \<le> 2 powi (- n)"
    using assms(1) by (intro exp_neg_le_pow2) simp
  moreover have "round32 (2 powi (- n)) = Finite (2 powi (- n))"
    using assms(1,2) by (intro round32_pow2) simp_all
  ultimately obtain w where w: "round32 (exp (- real_of_int n)) = Finite w" "0 \<le> w" "w \<le> 2 powi (- n)"
    using round32_between [of 0 "exp (- real_of_int n)" "2 powi (- n)"] by auto
  have s4: "fexp round32 (Finite (- real_of_int n)) = Finite w"
    using w(1) by simp
  have "(2::real) powi (- n) \<le> 2 powi (- 25)"
    using assms(1) by (intro power_int_increasing) simp_all
  with w have "round32 (1 + w) = Finite 1"
    by (intro round32_one_plus_tiny) simp_all
  then have s5: "fadd round32 (Finite 1) (Finite w) = Finite 1"
    by simp
  have s6: "fdiv round32 (Finite 1) (Finite 1) = Finite 1"
    by simp
  show ?thesis
    unfolding sigmoid_f32_def s1 s2 s3 s4 s5 s6 ..
qed

lemma sigmoid_f32_chain:
  assumes "0 < t" and "x \<le> y"
  shows "fle (sigmoid_f32 (Finite y) (Finite t) (Finite mid))
             (sigmoid_f32 (Finite x) (Finite t) (Finite mid))"
    and "\<exists>u. sigmoid_f32 (Finite x) (Finite t) (Finite mid) = Finite u \<and> 0 \<le> u \<and> u \<le> 1"
proof -
  let ?s = "\<lambda>z. fsub round32 (Finite z) (Finite mid)"
  let ?e = "\<lambda>z. fexp round32 (fmul round32 (Finite 10) (fdiv round32 (?s z) (Finite t)))"
  let ?d = "\<lambda>z. fadd round32 (Finite 1) (?e z)"
  have s: "fle (?s x) (?s y)"
    using assms(2) by (simp add: fsub_def round32_mono)
  then have v: "fle (fmul round32 (Finite 10) (fdiv round32 (?s x) (Finite t)))
      (fmul round32 (Finite 10) (fdiv round32 (?s y) (Finite t)))"
    using assms(1) by (intro fmul10_mono fdiv_mono_pos)
  then have e: "fle (?e x) (?e y)"
    by (rule fexp_mono)
  have "fmul round32 (Finite 10) (fdiv round32 (?s x) (Finite t)) \<noteq> NaN"
    using v by (cases "fmul round32 (Finite 10) (fdiv round32 (?s x) (Finite t))") simp_all
  then have "fle (Finite 0) (?e x)"
    by (rule fexp_nonneg)
  then have d1: "fle (Finite 1) (?d x)"
    by (rule fadd1_ge1)
  have d: "fle (?d x) (?d y)"
    using e by (rule fadd1_mono)
  show "fle (sigmoid_f32 (Finite y) (Finite t) (Finite mid))
             (sigmoid_f32 (Finite x) (Finite t) (Finite mid))"
    unfolding sigmoid_f32_def using d1 d by (rule frecip_anti)
  show "\<exists>u. sigmoid_f32 (Finite x) (Finite t) (Finite mid) = Finite u \<and> 0 \<le> u \<and> u \<le> 1"
    unfolding sigmoid_f32_def using d1 by (rule frecip_range)
qed

lemma sigmoid_f32_mid:
  assumes "t \<noteq> 0"
  shows "sigmoid_f32 (Finite mid) (Finite t) (Finite mid) = Finite (1 / 2)"
proof -
  have h: "round32 (1 / 2) = Finite (1 / 2)"
    using round32_dyadic [of 1 "- 1"] by (simp add: power_int_minus)
  show ?thesis
    using assms by (simp add: sigmoid_f32_def fsub_def h)
qed

lemma sigmoid_f32_saturated_examples:
  "sigmoid_f32 (Finite 0) (Finite 10) (Finite 45) = Finite 1"
  "sigmoid_f32 (Finite 5) (Finite 10) (Finite 45) = Finite 1"
proof -
  have a: "round32 (- real_of_int 45 / 10) = Finite (- (9 / 2))"
    using round32_dyadic [of "- 9" "- 1"] by (simp add: power_int_minus)
  have b: "round32 (- real_of_int 40 / 10) = Finite (- 4)"
    by simp
  have c: "round32 (0 - 45) = Finite (- real_of_int 45)" "round32 (5 - 45) = Finite (- real_of_int 40)"
    by simp_all
  show "sigmoid_f32 (Finite 0) (Finite 10) (Finite 45) = Finite 1"
    using a c(1) by (intro sigmoid_f32_saturated [where n = 45 and q = "- (9 / 2)"]) simp_all
  show "sigmoid_f32 (Finite 5) (Finite 10) (Finite 45) = Finite 1"
    using b c(2) by (intro sigmoid_f32_saturated [where n = 40 and q = "- 4"]) simp_all
qed

text \<open>
  Claim C7, as stated: for every width \<open>t > 0\<close> and every midpoint, the sigmoid is
  strictly decreasing in its first argument.  That is true of the formula over the reals
  and fails for the function the program computes: in binary32, \<open>sigmoid(0, 10, 45)\<close> and
  \<open>sigmoid(5, 10, 45)\<close> are both exactly 1, because \<open>1 + expf(-45)\<close> and \<open>1 + expf(-40)\<close>
  round to 1.
\<close>

theorem sigmoid_f32_not_strict:
  "(0::real) < 10 \<and> (0::real) < 5 \<and>
   sigmoid_f32 (Finite 0) (Finite 10) (Finite 45) = Finite 1 \<and>
   sigmoid_f32 (Finite 5) (Finite 10) (Finite 45) = Finite 1 \<and>
   \<not> fgt (sigmoid_f32 (Finite 0) (Finite 10) (Finite 45))
          (sigmoid_f32 (Finite 5) (Finite 10) (Finite 45))"
  by (simp add: sigmoid_f32_saturated_examples)

text \<open>
  Claim C7, amended.  For every width \<open>t > 0\<close> and every midpoint, the sigmoid as the
  program computes it in binary32 is non-increasing in its first argument, its values are
  finite numbers between 0 and 1, and its value at the midpoint is exactly one half.
\<close>

theorem sigmoid_f32_nonincreasing_half:
  "0 < t \<Longrightarrow>
   (\<forall>x y. x \<le> y \<longrightarrow>
      (\<exists>u v. sigmoid_f32 (Finite x) (Finite t) (Finite mid) = Finite u \<and>
             sigmoid_f32 (Finite y) (Finite t) (Finite mid) = Finite v \<and>
             v \<le> u \<and> 0 \<le> v \<and> u \<le> 1)) \<and>
   sigmoid_f32 (Finite mid) (Finite t) (Finite mid) = Finite (1 / 2)"
proof
  assume t: "0 < t"
  show "\<forall>x y. x \<le> y \<longrightarrow>
      (\<exists>u v. sigmoid_f32 (Finite x) (Finite t) (Finite mid) = Finite u \<and>
             sigmoid_f32 (Finite y) (Finite t) (Finite mid) = Finite v \<and>
             v \<le> u \<and> 0 \<le> v \<and> u \<le> 1)"
  proof (intro allI impI)
    fix x y :: real
    assume xy: "x \<le> y"
    from sigmoid_f32_chain [OF t xy, of mid] obtain u
      where le: "fle (sigmoid_f32 (Finite y) (Finite t) (Finite mid)) (Finite u)"
        and u: "sigmoid_f32 (Finite x) (Finite t) (Finite mid) = Finite u" "0 \<le> u" "u \<le> 1"
      by auto
    from sigmoid_f32_chain(2) [OF t order_refl, of y mid] obtain v
      where v: "sigmoid_f32 (Finite y) (Finite t) (Finite mid) = Finite v" "0 \<le> v" "v \<le> 1"
      by auto
    from le v(1) have "v \<le> u" by simp
    with u v show "\<exists>u v. sigmoid_f32 (Finite x) (Finite t) (Finite mid) = Finite u \<and>
             sigmoid_f32 (Finite y) (Finite t) (Finite mid) = Finite v \<and>
             v \<le> u \<and> 0 \<le> v \<and> u \<le> 1"
      by blast
  qed
next
  assume "0 < t"
  then show "sigmoid_f32 (Finite mid) (Finite t) (Finite mid) = Finite (1 / 2)"
    by (intro sigmoid_f32_mid) simp
qed

theorem sigmoid_f32_nonincreasing_half_witness:
  "(0::real) < 10 \<and> (45::real) \<le> 50 \<and>
   (\<exists>u v. sigmoid_f32 (Finite 45) (Finite 10) (Finite 45) = Finite u \<and>
          sigmoid_f32 (Finite 50) (Finite 10) (Finite 45) = Finite v \<and>
          v \<le> u \<and> 0 \<le> v \<and> u \<le> 1) \<and>
   sigmoid_f32 (Finite 45) (Finite 10) (Finite 45) = Finite (1 / 2)"
proof -
  have h: "(0::real) < 10" by simp
  from sigmoid_f32_nonincreasing_half [OF h, of 45]
  have "(45::real) \<le> 50 \<longrightarrow>
      (\<exists>u v. sigmoid_f32 (Finite 45) (Finite 10) (Finite 45) = Finite u \<and>
             sigmoid_f32 (Finite 50) (Finite 10) (Finite 45) = Finite v \<and>
             v \<le> u \<and> 0 \<le> v \<and> u \<le> 1)"
    and "sigmoid_f32 (Finite 45) (Finite 10) (Finite 45) = Finite (1 / 2)"
    by blast+
  then show ?thesis by simp
qed

subsection \<open>The spherical mapping\<close>

lemma longitude_range:
  assumes "0 \<le> x" and "x < real_of_int outW"
  shows "- (2 * pi) \<le> longitude x outW \<and> longitude x outW \<le> 0"
proof -
  have W: "0 < real_of_int outW" using assms by linarith
  have eq: "longitude x outW = 2 * pi * ((x - real_of_int outW) / real_of_int outW)"
    by (simp add: longitude_def)
  have lo: "- 1 \<le> (x - real_of_int outW) / real_of_int outW"
    using W assms by (simp add: field_simps)
  have hi: "(x - real_of_int outW) / real_of_int outW \<le> 0"
    using W assms by (simp add: field_simps)
  have "2 * pi * (- 1) \<le> 2 * pi * ((x - real_of_int outW) / real_of_int outW)"
    using lo by (intro mult_left_mono) simp_all
  moreover have "2 * pi * ((x - real_of_int outW) / real_of_int outW) \<le> 2 * pi * 0"
    using hi by (intro mult_left_mono) simp_all
  ultimately show ?thesis unfolding eq by simp
qed

lemma longitude_zero: "0 < outW \<Longrightarrow> longitude 0 outW = - (2 * pi)"
  by (simp add: longitude_def)

lemma latitude_range:
  assumes "0 \<le> y" and "y \<le> real_of_int outH" and "0 < outH"
  shows "- (pi / 2) \<le> latitude y outH \<and> latitude y outH \<le> pi / 2"
proof -
  have H: "0 < real_of_int outH" using assms by simp
  have eq: "latitude y outH = pi * ((real_of_int outH / 2 - y) / real_of_int outH)"
    by (simp add: latitude_def)
  have lo: "- (1 / 2) \<le> (real_of_int outH / 2 - y) / real_of_int outH"
    using H assms by (simp add: field_simps)
  have hi: "(real_of_int outH / 2 - y) / real_of_int outH \<le> 1 / 2"
    using H assms by (simp add: field_simps)
  have "pi * (- (1 / 2)) \<le> pi * ((real_of_int outH / 2 - y) / real_of_int outH)"
    using lo by (intro mult_left_mono) simp_all
  moreover have "pi * ((real_of_int outH / 2 - y) / real_of_int outH) \<le> pi * (1 / 2)"
    using hi by (intro mult_left_mono) simp_all
  ultimately show ?thesis unfolding eq by simp
qed

text \<open>
  Claim C4.  The spherical mapper computes, from \<open>(x, y, outW, outH)\<close> alone,
  \<open>longitude = 2\<pi>(x - outW)/outW\<close> and \<open>latitude = \<pi>(outH/2 - y)/outH\<close> and returns the ray
  \<open>(cos latitude cos longitude, cos latitude sin longitude, sin latitude)\<close>.  For
  \<open>0 \<le> x < outW\<close> the longitude lies in \<open>[-2\<pi>, 0]\<close>; it is \<open>-2\<pi>\<close>, outside \<open>[-\<pi>, \<pi>]\<close>, at
  \<open>x = 0\<close>.  For \<open>0 \<le> y \<le> outH\<close> the latitude lies in \<open>[-\<pi>/2, \<pi>/2]\<close>; the image has
  at least one row (\<open>0 < outH\<close>), as at the call site, where \<open>y < outH\<close>.
\<close>

theorem get3DPoint_angles:
  "get3DPoint (x, y) outW outH =
     (cos (latitude y outH) * cos (longitude x outW),
      cos (latitude y outH) * sin (longitude x outW),
      sin (latitude y outH)) \<and>
   longitude x outW = 2 * pi * (x - real_of_int outW) / real_of_int outW \<and>
   latitude y outH = pi * (real_of_int outH / 2 - y) / real_of_int outH \<and>
   (0 \<le> x \<and> x < real_of_int outW \<longrightarrow>
      - (2 * pi) \<le> longitude x outW \<and> longitude x outW \<le> 0) \<and>
   (0 < outW \<longrightarrow> longitude 0 outW = - (2 * pi) \<and> longitude 0 outW < - pi) \<and>
   (0 < outH \<and> 0 \<le> y \<and> y \<le> real_of_int outH \<longrightarrow>
      - (pi / 2) \<le> latitude y outH \<and> latitude y outH \<le> pi / 2)"
  using longitude_range [of x outW] latitude_range [of y outH] longitude_zero [of outW]
  by (simp add: get3DPoint_def Let_def longitude_def latitude_def)

theorem get3DPoint_angles_witness:
  "(0::real) \<le> 0 \<and> (0::real) < real_of_int 200 \<and> (0::int) < 200 \<and> (0::int) < 100 \<and>
   (0::real) \<le> 50 \<and> (50::real) \<le> real_of_int 100 \<and>
   get3DPoint (0, 50) 200 100 = (1, 0, 0) \<and>
   - (2 * pi) \<le> longitude 0 200 \<and> longitude 0 200 \<le> 0 \<and>
   longitude 0 200 = - (2 * pi) \<and> longitude 0 200 < - pi \<and>
   - (pi / 2) \<le> latitude 50 100 \<and> latitude 50 100 \<le> pi / 2"
proof -
  have l: "latitude 50 100 = 0"
    by (simp add: latitude_def)
  show ?thesis
    using get3DPoint_angles [of 0 50 200 100] by (simp add: l)
qed

subsection \<open>What the loops compute\<close>

text \<open>
  Each of the two nested loops visits every cell of the image once, so a pass replaces
  the cell at \<open>(y, x)\<close> by the loop body applied to it and leaves the dimensions alone.
\<close>

lemma forLoop_row_aux:
  "body = (\<lambda>x img. setPixel img y x (f (Width img) (Height img) x (pixel img y x))) \<Longrightarrow>
   Width (forLoop i n body img) = Width img \<and>
   Height (forLoop i n body img) = Height img \<and>
   (\<forall>y' x'. pixel (forLoop i n body img) y' x' =
      (if y' = y \<and> i \<le> x' \<and> x' < n
       then f (Width img) (Height img) x' (pixel img y' x')
       else pixel img y' x'))"
proof (induction i n body img rule: forLoop.induct)
  case (1 i n body s)
  show ?case
  proof (cases "i < n")
    case False
    then show ?thesis by (simp add: forLoop.simps [of i n])
  next
    case True
    have unf: "forLoop i n body s = forLoop (i + 1) n body (body i s)"
      using True by (simp add: forLoop.simps [of i n])
    have W: "Width (body i s) = Width s" and H: "Height (body i s) = Height s"
      by (simp_all add: "1.prems" setPixel_def)
    have P: "\<And>y' x'. pixel (body i s) y' x' =
        (if y' = y \<and> x' = i then f (Width s) (Height s) i (pixel s y i) else pixel s y' x')"
      by (simp add: "1.prems" setPixel_def)
    from "1.IH" [OF True "1.prems"] True show ?thesis
      unfolding unf W H by (auto simp: P)
  qed
qed

lemmas forLoop_row = forLoop_row_aux [OF refl]

lemma forLoop_rows_aux:
  "body = (\<lambda>y. forLoop 0 w
      (\<lambda>x img. setPixel img y x (f (Width img) (Height img) x y (pixel img y x)))) \<Longrightarrow>
   Width (forLoop j m body img) = Width img \<and>
   Height (forLoop j m body img) = Height img \<and>
   (\<forall>y' x'. pixel (forLoop j m body img) y' x' =
      (if j \<le> y' \<and> y' < m \<and> 0 \<le> x' \<and> x' < w
       then f (Width img) (Height img) x' y' (pixel img y' x')
       else pixel img y' x'))"
proof (induction j m body img rule: forLoop.induct)
  case (1 j m body s)
  show ?case
  proof (cases "j < m")
    case False
    then show ?thesis by (simp add: forLoop.simps [of j m])
  next
    case True
    have unf: "forLoop j m body s = forLoop (j + 1) m body (body j s)"
      using True by (simp add: forLoop.simps [of j m])
    note row = forLoop_row [where i = 0 and n = w and y = j and f = "\<lambda>W H x. f W H x j" and img = s]
    have W: "Width (body j s) = Width s" and H: "Height (body j s) = Height s"
      using row by (simp_all add: "1.prems")
    have P: "\<And>y' x'. pixel (body j s) y' x' =
        (if y' = j \<and> 0 \<le> x' \<and> x' < w then f (Width s) (Height s) x' j (pixel s y' x')
         else pixel s y' x')"
      using row by (simp add: "1.prems")
    from "1.IH" [OF True "1.prems"] True show ?thesis
      unfolding unf W H by (auto simp: P)
  qed
qed

lemmas forLoop_rows = forLoop_rows_aux [OF refl]

lemma stitchView_dims:
  "Width (stitchView cfg view img) = Width img" "Height (stitchView cfg view img) = Height img"
  unfolding stitchView_def
  using forLoop_rows [where w = "Width img" and f = "pixelStep cfg view" and j = 0 and m = "Height img" and img = img] by simp_all

lemma stitchView_pixel:
  "pixel (stitchView cfg view img) y x =
     (if 0 \<le> y \<and> y < Height img \<and> 0 \<le> x \<and> x < Width img
      then pixelStep cfg view (Width img) (Height img) x y (pixel img y x)
      else pixel img y x)"
  unfolding stitchView_def
  using forLoop_rows [where w = "Width img" and f = "pixelStep cfg view" and j = 0 and m = "Height img" and img = img] by simp

lemma normalizeImage_dims:
  "Width (normalizeImage img) = Width img" "Height (normalizeImage img) = Height img"
  unfolding normalizeImage_def
  using forLoop_rows [where w = "Width img" and f = "\<lambda>W H x y. normalizePixel" and j = 0 and m = "Height img" and img = img] by simp_all

lemma normalizeImage_pixel:
  "pixel (normalizeImage img) y x =
     (if 0 \<le> y \<and> y < Height img \<and> 0 \<le> x \<and> x < Width img
      then normalizePixel (pixel img y x)
      else pixel img y x)"
  unfolding normalizeImage_def
  using forLoop_rows [where w = "Width img" and f = "\<lambda>W H x y. normalizePixel" and j = 0 and m = "Height img" and img = img] by simp

subsection \<open>One pixel, one view\<close>

lemma dist_to_center_same_column:
  "fst pix = real_of_int (fst (center view)) \<Longrightarrow>
   dist_to_center view pix = \<bar>snd pix - real_of_int (snd (center view))\<bar>"
  by (simp add: dist_to_center_def)

lemma exampleView_center: "center exampleView = (50, 50)"
  by (simp add: center_def trunc_to_int_def exampleView_def)

lemma contribution_fisheye:
  "fisheyeMasking cfg \<Longrightarrow>
   contribution cfg view pix =
     (if dist_to_center view pix > maxRadius cfg view then None
      else Some (sigmoid (dist_to_center view pix) (transitionSize cfg) (blurMid cfg view)))"
  by (simp add: contribution_def Let_def)

lemma top_row_depth: "0 < outH \<Longrightarrow> snd (snd (get3DPoint (x, 0) outW outH)) = 1"
proof -
  assume "0 < outH"
  then have l: "latitude 0 outH = pi / 2"
    by (simp add: latitude_def)
  show ?thesis
    unfolding get3DPoint_def Let_def snd_conv fst_conv l by simp
qed

lemma example_ray_behind: "snd (snd (get3DPoint (0, 3) 4 4)) < 0"
proof -
  have "latitude 3 4 = - (pi / 4)"
    by (simp add: latitude_def)
  then have "snd (snd (get3DPoint (0, 3) 4 4)) = - sin (pi / 4)"
    by (simp add: get3DPoint_def Let_def)
  then show ?thesis by (simp add: sin_45)
qed

text \<open>
  Claim C5.  When the depth of the ray of an output pixel is negative for a view, the pair
  contributes nothing: the visibility test fails, the cell is returned as it was, whatever
  the projector and the sampler of the view are (their results are not used), and the
  view's pass leaves the cell of the output image unchanged.
\<close>

theorem behind_camera_no_contribution:
  assumes "depth view (get3DPoint (real_of_int x, real_of_int y) (Width imageOut) (Height imageOut)) < 0"
  shows "visiblePixel view (get3DPoint (real_of_int x, real_of_int y) (Width imageOut) (Height imageOut)) = None \<and>
         pixelStep cfg view (Width imageOut) (Height imageOut) x y cell = cell \<and>
         pixelStep cfg (view\<lparr>project := prj, sampler := smp\<rparr>) (Width imageOut) (Height imageOut) x y cell = cell \<and>
         pixel (stitchView cfg view imageOut) y x = pixel imageOut y x"
  using assms by (simp add: visiblePixel_def pixelStep_def stitchView_pixel)

theorem behind_camera_no_contribution_witness:
  "depth exampleView (get3DPoint (real_of_int 0, real_of_int 3) (Width (newImage 4 4)) (Height (newImage 4 4))) < 0 \<and>
   pixelStep exampleConfig exampleView 4 4 0 3 exampleCell = exampleCell \<and>
   pixel (stitchView exampleConfig exampleView (newImage 4 4)) 3 0 = pixel (newImage 4 4) 3 0"
proof -
  have h: "depth exampleView (get3DPoint (real_of_int 0, real_of_int 3) (Width (newImage 4 4)) (Height (newImage 4 4))) < 0"
    using example_ray_behind by (simp add: exampleView_def newImage_def)
  from behind_camera_no_contribution [OF h, of exampleConfig exampleCell] h
  show ?thesis by (simp add: newImage_def)
qed

subsection \<open>The vignette weight\<close>

text \<open>
  The code measures the distance to the truncated centre.  For an image of even width and
  height that is the centre of the image, and the weight is the one the specification
  describes; the 100 by 100 scenario is an instance.
\<close>

lemma dist_to_center_even:
  assumes "even (imageIn_Width view)" and "even (imageIn_Height view)"
    and "0 \<le> imageIn_Width view" and "0 \<le> imageIn_Height view"
  shows "dist_to_center view pix = spec_dist view pix"
proof -
  obtain w h where w: "imageIn_Width view = 2 * w" and h: "imageIn_Height view = 2 * h"
    using assms by (auto elim!: evenE)
  have "center view = (w, h)"
    using assms by (simp add: center_def trunc_to_int_def w h)
  then show ?thesis
    by (simp add: dist_to_center_def spec_dist_def spec_center_def w h power2_eq_square)
qed

lemma fisheye_weight_even:
  assumes "fisheyeMasking cfg" and "even (imageIn_Width view)" and "even (imageIn_Height view)"
    and "0 \<le> imageIn_Width view" and "0 \<le> imageIn_Height view"
  shows "contribution cfg view pix = spec_vignetteWeight cfg view pix"
  using assms(1) dist_to_center_even [OF assms(2-5)]
  by (simp add: contribution_fisheye spec_vignetteWeight_def)

lemma fisheye_scenario_100:
  "maxRadius exampleConfig exampleView = 50 \<and> blurMid exampleConfig exampleView = 45 \<and>
   dist_to_center exampleView (50, 0) = 50 \<and>
   contribution exampleConfig exampleView (50, 0) = Some (1 / (1 + exp 5)) \<and>
   dist_to_center exampleView (50, 5) = 45 \<and>
   contribution exampleConfig exampleView (50, 5) = Some (1 / 2)"
proof -
  have m: "maxRadius exampleConfig exampleView = 50"
    by (simp add: maxRadius_def exampleConfig_def exampleView_def)
  have k: "blurMid exampleConfig exampleView = 45"
    by (simp add: blurMid_def m) (simp add: exampleConfig_def)
  have f: "fisheyeMasking exampleConfig" and t: "transitionSize exampleConfig = 10"
    by (simp_all add: exampleConfig_def)
  have d1: "dist_to_center exampleView (50, 0) = 50"
    by (simp add: dist_to_center_same_column exampleView_center)
  have d2: "dist_to_center exampleView (50, 5) = 45"
    by (simp add: dist_to_center_same_column exampleView_center)
  have s1: "sigmoid 50 10 45 = 1 / (1 + exp 5)" and s2: "sigmoid 45 10 45 = 1 / 2"
    by (simp_all add: sigmoid_def)
  show ?thesis
    by (simp add: contribution_fisheye [OF f] m k t d1 d2 s1 s2)
qed

lemma top_visible:
  "visiblePixel (exampleView\<lparr>project := (\<lambda>ray. p)\<rparr>) (get3DPoint (real_of_int 0, real_of_int 0) 4 4) =
     (if fst p < 0 \<or> 100 \<le> fst p \<or> snd p < 0 \<or> 100 \<le> snd p then None else Some p)"
  using top_row_depth [of 4 0 4] by (simp add: visiblePixel_def exampleView_def)

text \<open>
  The weight in binary32.  The distance of an in-bounds pixel is a finite \<open>float\<close> that is
  not negative, \<open>maxRadius\<close> is not NaN, and the weight of a sample within the radius is
  bounded from below by rounding every step of the sigmoid monotonically.
\<close>

lemma rimView_maxRadius_f32:
  "fisheyeMaskingMargin cfg = 0 \<Longrightarrow> maxRadius_f32 cfg rimView = Finite 50"
  by (simp add: maxRadius_f32_def rimView_def exampleView_def fsub_def)

lemma rimView_dist_f32: "dist_f32 rimView (50, 0) = Finite 50"
proof -
  have c: "center rimView = (50, 50)"
    by (simp add: center_def trunc_to_int_def rimView_def exampleView_def)
  have s: "sqrt 2500 = 50"
    by (rule real_sqrt_unique) simp_all
  show ?thesis
    by (simp add: dist_f32_def c fsub_def s)
qed

lemma trunc_half_range: "0 \<le> n \<Longrightarrow> 0 \<le> trunc_to_int (real_of_int n / 2) \<and> trunc_to_int (real_of_int n / 2) \<le> n"
proof -
  assume n: "0 \<le> n"
  have "\<lfloor>real_of_int n / 2\<rfloor> \<le> n"
    using n by (simp add: floor_le_iff)
  with n show ?thesis
    by (simp add: trunc_to_int_def)
qed

lemma square_f64:
  assumes "\<bar>x - y\<bar> \<le> 2 ^ 31"
  shows "\<exists>s. (let dx = fsub round64 (Finite x) (Finite y) in fmul round64 dx dx) = Finite s \<and>
             0 \<le> s \<and> s \<le> 2 ^ 62"
proof -
  have "round64 (- (2 ^ 31)) = Finite (- (2 ^ 31))" "round64 (2 ^ 31) = Finite (2 ^ 31)"
    using round64_of_int [of "- (2 ^ 31)"] round64_of_int [of "2 ^ 31"] by simp_all
  then have "\<exists>w. round64 (x - y) = Finite w \<and> - (2 ^ 31) \<le> w \<and> w \<le> 2 ^ 31"
    using assms by (intro round64_between) simp_all
  then obtain w where w: "round64 (x - y) = Finite w" "- (2 ^ 31) \<le> w" "w \<le> 2 ^ 31"
    by blast
  have "\<bar>w\<bar> \<le> 2 ^ 31" using w(2,3) by simp
  then have "\<bar>w\<bar> * \<bar>w\<bar> \<le> 2 ^ 31 * 2 ^ 31"
    by (intro mult_mono) simp_all
  then have sq: "w * w \<le> 2 ^ 62"
    by (simp add: abs_mult_self_eq)
  have "round64 (2 ^ 62) = Finite (2 ^ 62)"
    using round64_pow2 [of 62] by simp
  then have "\<exists>s. round64 (w * w) = Finite s \<and> 0 \<le> s \<and> s \<le> 2 ^ 62"
    using sq by (intro round64_between) simp_all
  then show ?thesis
    using w(1) by (simp add: fsub_def Let_def)
qed

lemma dist_f32_in_bounds:
  assumes "0 \<le> fst pix_disto" and "fst pix_disto < real_of_int (imageIn_Width view)"
    and "0 \<le> snd pix_disto" and "snd pix_disto < real_of_int (imageIn_Height view)"
    and "imageIn_Width view < 2 ^ 31" and "imageIn_Height view < 2 ^ 31"
  shows "\<exists>d. dist_f32 view pix_disto = Finite d \<and> 0 \<le> d"
proof -
  have W: "0 \<le> imageIn_Width view" and H: "0 \<le> imageIn_Height view"
    using assms(1-4) by linarith+
  have cx: "0 \<le> fst (center view)" "fst (center view) \<le> imageIn_Width view"
    and cy: "0 \<le> snd (center view)" "snd (center view) \<le> imageIn_Height view"
    using trunc_half_range [OF W] trunc_half_range [OF H] by (simp_all add: center_def)
  have Wr: "real_of_int (imageIn_Width view) \<le> 2 ^ 31" and Hr: "real_of_int (imageIn_Height view) \<le> 2 ^ 31"
    using assms(5,6) by (simp_all add: of_int_le_numeral_power_cancel_iff)
  have "real_of_int (fst (center view)) \<le> real_of_int (imageIn_Width view)"
    and "0 \<le> real_of_int (fst (center view))"
    and "real_of_int (snd (center view)) \<le> real_of_int (imageIn_Height view)"
    and "0 \<le> real_of_int (snd (center view))"
    using cx cy by simp_all
  then have ax: "\<bar>fst pix_disto - real_of_int (fst (center view))\<bar> \<le> 2 ^ 31"
    and ay: "\<bar>snd pix_disto - real_of_int (snd (center view))\<bar> \<le> 2 ^ 31"
    using assms(1-4) Wr Hr by linarith+
  from square_f64 [OF ax] obtain sx where sx:
    "(let dx = fsub round64 (Finite (fst pix_disto)) (Finite (real_of_int (fst (center view))))
      in fmul round64 dx dx) = Finite sx" "0 \<le> sx" "sx \<le> 2 ^ 62"
    by blast
  from square_f64 [OF ay] obtain sy where sy:
    "(let dy = fsub round64 (Finite (snd pix_disto)) (Finite (real_of_int (snd (center view))))
      in fmul round64 dy dy) = Finite sy" "0 \<le> sy" "sy \<le> 2 ^ 62"
    by blast
  have "round64 (2 ^ 63) = Finite (2 ^ 63)"
    using round64_pow2 [of 63] by simp
  then have "\<exists>s. round64 (sx + sy) = Finite s \<and> 0 \<le> s \<and> s \<le> 2 ^ 63"
    using sx(2,3) sy(2,3) by (intro round64_between) simp_all
  then obtain s where s: "round64 (sx + sy) = Finite s" "0 \<le> s" "s \<le> 2 ^ 63"
    by blast
  have "sqrt s \<le> sqrt ((2 ^ 32)\<^sup>2)"
    using s(3) by (intro real_sqrt_le_mono) simp
  then have q: "sqrt s \<le> 2 ^ 32" by simp
  have r32: "round64 (2 ^ 32) = Finite (2 ^ 32)"
    using round64_pow2 [of 32] by simp
  have "\<exists>q. round64 (sqrt s) = Finite q \<and> 0 \<le> q \<and> q \<le> 2 ^ 32"
    using q s(2) r32 by (intro round64_between) simp_all
  then obtain q where q: "round64 (sqrt s) = Finite q" "0 \<le> q" "q \<le> 2 ^ 32"
    by blast
  have "round32 (2 ^ 32) = Finite (2 ^ 32)"
    using round32_pow2 [of 32] by simp
  then have "\<exists>d. round32 q = Finite d \<and> 0 \<le> d \<and> d \<le> 2 ^ 32"
    using q(2,3) by (intro round32_between) simp_all
  then obtain d where d: "round32 q = Finite d" "0 \<le> d"
    by blast
  have "dist_f32 view pix_disto = Finite d"
    using sx(1) sy(1) s(1) s(2) q(1) d(1) by (simp add: dist_f32_def Let_def)
  with d(2) show ?thesis by blast
qed

lemma half_min_f32:
  assumes "0 < n" and "n < 2 ^ 31"
  shows "\<exists>h. fmul round32 (round32 (real_of_int n)) (Finite 0.5) = Finite h \<and> 0 < h"
proof -
  have "1 \<le> real_of_int n" and "real_of_int n \<le> 2 ^ 31"
    using assms by (simp_all add: of_int_le_numeral_power_cancel_iff)
  moreover have "round32 (2 ^ 31) = Finite (2 ^ 31)"
    using round32_pow2 [of 31] by simp
  ultimately have "\<exists>w. round32 (real_of_int n) = Finite w \<and> 1 \<le> w \<and> w \<le> 2 ^ 31"
    by (intro round32_between) simp_all
  then obtain w where w: "round32 (real_of_int n) = Finite w" "1 \<le> w" "w \<le> 2 ^ 31"
    by blast
  have "round32 (1 / 2) = Finite (1 / 2)" "round32 (2 ^ 31) = Finite (2 ^ 31)"
    using round32_pow2 [of "- 1"] round32_pow2 [of 31] by (simp_all add: power_int_minus)
  then have "\<exists>h. round32 (w * 0.5) = Finite h \<and> 1 / 2 \<le> h \<and> h \<le> 2 ^ 31"
    using w(2,3) by (intro round32_between) simp_all
  then obtain h where "round32 (w * 0.5) = Finite h" "1 / 2 \<le> h"
    by blast
  then show ?thesis
    using w(1) by (intro exI [of _ h]) simp
qed

lemma scaled_not_NaN: "0 < h \<Longrightarrow> v \<noteq> NaN \<Longrightarrow> to_float (fmul round64 (Finite h) v) \<noteq> NaN"
proof (cases v)
  case (Finite x)
  then show ?thesis
    by (cases "round64 (h * x)") simp_all
qed simp_all

lemma one_minus_not_NaN: "fsub round64 (Finite 1) (round32 x) \<noteq> NaN"
  by (cases "round32 x") (simp_all add: fsub_def)

lemma maxRadius_f32_not_NaN:
  assumes "0 < imageIn_Width view" and "0 < imageIn_Height view"
    and "imageIn_Width view < 2 ^ 31" and "imageIn_Height view < 2 ^ 31"
  shows "maxRadius_f32 cfg view \<noteq> NaN"
proof -
  have "0 < min (imageIn_Width view) (imageIn_Height view)"
    and "min (imageIn_Width view) (imageIn_Height view) < 2 ^ 31"
    using assms by simp_all
  from half_min_f32 [OF this] obtain h where
    h: "fmul round32 (round32 (real_of_int (min (imageIn_Width view) (imageIn_Height view))))
          (Finite 0.5) = Finite h" "0 < h"
    by blast
  show ?thesis
    unfolding maxRadius_f32_def h(1) using h(2) one_minus_not_NaN by (rule scaled_not_NaN)
qed

lemma exp_20_bound: "exp (20::real) \<le> 2 ^ 32"
proof -
  have "exp (real 20) \<le> 3 ^ 20"
    by (rule exp_le_pow3)
  then show ?thesis by simp
qed

lemma weight_f32_positive:
  assumes t: "representable 24 (- 126) t" "0 < t" "t < 2 ^ 128"
    and m: "representable 24 (- 126) m" "m < 2 ^ 128"
    and d: "0 \<le> d" "d \<le> m"
  shows "\<exists>w. sigmoid_f32 (Finite d) (Finite t)
               (fsub round32 (Finite m) (fdiv round32 (Finite t) (Finite 2))) = Finite w \<and>
             1 / 2 ^ 33 \<le> w \<and> w \<le> 1"
proof -
  have m0: "0 \<le> m" using d by simp
  have rt: "round32 t = Finite t"
    using t by (intro round32_exact) simp_all
  have rm: "round32 m = Finite m"
    using m m0 by (intro round32_exact) simp_all
  have "\<exists>h. round32 (t / 2) = Finite h \<and> 0 \<le> h \<and> h \<le> t"
    using t(2) rt by (intro round32_between) simp_all
  then obtain h where h: "round32 (t / 2) = Finite h" "0 \<le> h" "h \<le> t"
    by auto
  have hrep: "representable 24 (- 126) h" and hlt: "\<bar>h\<bar> < 2 ^ 128"
    using round32_Finite [OF h(1)] by blast+
  have rh: "round32 (- h) = Finite (- h)"
    using hrep hlt by (intro round32_exact) (simp_all add: representable_uminus)
  obtain T where T: "2 * h \<le> T" "T \<le> 2 * t" "round32 T = Finite T"
  proof (cases "2 powi (- 125) \<le> t")
    case True
    then have "representable 24 (- 126) (t / 2)"
      using t(1,2) by (intro representable_half) simp_all
    then have "round32 (t / 2) = Finite (t / 2)"
      using t(2,3) by (intro round32_exact) simp_all
    with h(1) have "2 * h = t" by simp
    with rt t(2) show ?thesis by (intro that [of t]) simp_all
  next
    case False
    then have "2 * t < 2 * 2 powi (- 125)" by simp
    also have "2 * (2::real) powi (- 125) \<le> 2 ^ 128"
      by (simp add: power_int_minus)
    finally have "\<bar>2 * t\<bar> < 2 ^ 128"
      using t(2) by simp
    then have "round32 (2 * t) = Finite (2 * t)"
      using t(1) by (intro round32_exact representable_double)
    with h(3) show ?thesis by (intro that [of "2 * t"]) simp_all
  qed
  have "\<exists>b. round32 (m - h) = Finite b \<and> - h \<le> b \<and> b \<le> m"
    using h(2) m0 rh rm by (intro round32_between) simp_all
  then obtain b where b: "round32 (m - h) = Finite b" "- h \<le> b" "b \<le> m"
    by auto
  have near: "m - b \<le> 2 * h"
  proof (cases "0 < m - h")
    case True
    have "b = rnd 24 (- 126) (m - h)"
      using round32_Finite [OF b(1)] by blast
    then have "m - b \<le> 2 * (m - (m - h))"
      using rnd_sub_near [OF m(1) True] h(2) by simp
    then show ?thesis by simp
  next
    case False
    with b(2) show ?thesis by simp
  qed
  have rmm: "round32 (- m) = Finite (- m)"
    using m m0 by (intro round32_exact) (simp_all add: representable_uminus)
  have "\<exists>s. round32 (d - b) = Finite s \<and> - m \<le> s \<and> s \<le> T"
    using d b(3) near T(1) rmm T(3) by (intro round32_between) simp_all
  then obtain s where s: "round32 (d - b) = Finite s" "- m \<le> s" "s \<le> T"
    by auto
  have "s / t \<le> 2"
    using s(3) T(2) t(2) by (simp add: field_simps)
  then have q: "fle (fdiv round32 (Finite s) (Finite t)) (Finite 2)"
    using t(2) fle_round32_upper [of "s / t" 2] by simp
  have "fle (fmul round32 (Finite 10) (fdiv round32 (Finite s) (Finite t)))
      (fmul round32 (Finite 10) (Finite 2))"
    using q by (rule fmul10_mono)
  then have v: "fle (fmul round32 (Finite 10) (fdiv round32 (Finite s) (Finite t))) (Finite 20)"
    by simp
  let ?e = "fexp round32 (fmul round32 (Finite 10) (fdiv round32 (Finite s) (Finite t)))"
  have "fle ?e (fexp round32 (Finite 20))"
    using v by (rule fexp_mono)
  moreover have "fle (fexp round32 (Finite 20)) (Finite (2 ^ 32))"
    using exp_20_bound fle_round32_upper [of "exp 20" "2 ^ 32"] round32_pow2 [of 32] by simp
  ultimately have e_hi: "fle ?e (Finite (2 ^ 32))"
    by (rule fle_trans)
  have "fmul round32 (Finite 10) (fdiv round32 (Finite s) (Finite t)) \<noteq> NaN"
    using v by (cases "fmul round32 (Finite 10) (fdiv round32 (Finite s) (Finite t))") simp_all
  then have e_lo: "fle (Finite 0) ?e"
    by (rule fexp_nonneg)
  from fle_between [OF e_lo e_hi] obtain e where e: "?e = Finite e" "0 \<le> e" "e \<le> 2 ^ 32"
    by auto
  have "\<exists>k. round32 (1 + e) = Finite k \<and> 1 \<le> k \<and> k \<le> 2 ^ 33"
    using e(2,3) round32_pow2 [of 33] by (intro round32_between) simp_all
  then obtain k where k: "round32 (1 + e) = Finite k" "1 \<le> k" "k \<le> 2 ^ 33"
    by auto
  have "1 / 2 ^ 33 \<le> 1 / k" and "1 / k \<le> 1"
    using k(2,3) by (simp_all add: field_simps)
  moreover have "round32 (1 / 2 ^ 33) = Finite (1 / 2 ^ 33)"
    using round32_pow2 [of "- 33"] by (simp add: power_int_minus)
  ultimately have "\<exists>w. round32 (1 / k) = Finite w \<and> 1 / 2 ^ 33 \<le> w \<and> w \<le> 1"
    by (intro round32_between) simp_all
  then obtain w where w: "round32 (1 / k) = Finite w" "1 / 2 ^ 33 \<le> w" "w \<le> 1"
    by auto
  have "sigmoid_f32 (Finite d) (Finite t)
      (fsub round32 (Finite m) (fdiv round32 (Finite t) (Finite 2))) = Finite w"
    using h(1) b(1) s(1) e(1) k(1) k(2) w(1) by (simp add: sigmoid_f32_def fsub_def)
  with w(2,3) show ?thesis by blast
qed

lemma weight_f32_infinite_radius:
  assumes "round32 t = Finite t" and "0 < t"
  shows "sigmoid_f32 (Finite d) (Finite t)
           (fsub round32 PlusInf (fdiv round32 (Finite t) (Finite 2))) = Finite 1"
proof -
  have "\<exists>h. round32 (t / 2) = Finite h \<and> 0 \<le> h \<and> h \<le> t"
    using assms by (intro round32_between) simp_all
  then obtain h where "round32 (t / 2) = Finite h"
    by blast
  then show ?thesis
    using assms(2) by (simp add: sigmoid_f32_def fsub_def)
qed

lemma accepted_weight_f32:
  assumes "fisheyeMasking cfg"
    and "round32 (transitionSize cfg) = Finite t" and "0 < t"
    and "imageIn_Width view < 2 ^ 31" and "imageIn_Height view < 2 ^ 31"
    and "0 \<le> fst pix_disto" and "fst pix_disto < real_of_int (imageIn_Width view)"
    and "0 \<le> snd pix_disto" and "snd pix_disto < real_of_int (imageIn_Height view)"
    and "\<not> fgt (dist_f32 view pix_disto) (maxRadius_f32 cfg view)"
  shows "\<exists>w. contribution_f32 cfg view pix_disto = Some (Finite w) \<and> 1 / 2 ^ 33 \<le> w \<and> w \<le> 1"
proof -
  from dist_f32_in_bounds [OF assms(6-9) assms(4,5)]
  obtain d where d: "dist_f32 view pix_disto = Finite d" "0 \<le> d"
    by blast
  have t: "representable 24 (- 126) t" "t < 2 ^ 128" "round32 t = Finite t"
    using round32_Finite [OF assms(2)] round32_exact [of t] by auto
  have "0 < imageIn_Width view" and "0 < imageIn_Height view"
    using assms(6-9) by linarith+
  then have nn: "maxRadius_f32 cfg view \<noteq> NaN"
    using assms(4,5) by (rule maxRadius_f32_not_NaN)
  have c: "contribution_f32 cfg view pix_disto =
      Some (sigmoid_f32 (Finite d) (Finite t)
        (fsub round32 (maxRadius_f32 cfg view) (fdiv round32 (Finite t) (Finite 2))))"
    using assms(1,10) by (simp add: contribution_f32_def Let_def d(1) assms(2) blurMid_f32_def)
  show ?thesis
  proof (cases "maxRadius_f32 cfg view")
    case (Finite m)
    have "maxRadius_f32 cfg view = to_float (fmul round64
          (fmul round32 (round32 (real_of_int (min (imageIn_Width view) (imageIn_Height view))))
             (Finite 0.5))
          (fsub round64 (Finite 1) (round32 (fisheyeMaskingMargin cfg))))"
      by (simp only: maxRadius_f32_def)
    with Finite have m: "representable 24 (- 126) m" "m < 2 ^ 128"
      using to_float_Finite by (metis, metis abs_less_iff)
    have dm: "d \<le> m"
      using assms(10) by (simp add: d(1) Finite)
    from weight_f32_positive [OF t(1) assms(3) t(2) m d(2) dm] c show ?thesis
      by (simp add: Finite)
  next
    case PlusInf
    then show ?thesis
      using c weight_f32_infinite_radius [OF t(3) assms(3), of d] by simp
  next
    case MinusInf
    then show ?thesis
      using assms(10) by (simp add: d(1))
  next
    case NaN
    with nn show ?thesis by simp
  qed
qed

lemma accumulate_f32_positive:
  "0 < w \<Longrightarrow>
   accumulate_f32 cell px (Finite w) =
     cell\<lparr>r32 := fadd round32 (r32 cell) (fmul round32 (r32 px) (Finite w)),
          g32 := fadd round32 (g32 cell) (fmul round32 (g32 px) (Finite w)),
          b32 := fadd round32 (b32 cell) (fmul round32 (b32 px) (Finite w)),
          a32 := fadd round32 (a32 cell) (Finite w)\<rparr>"
  by (simp add: accumulate_f32_def)

lemma visiblePixel_bounds:
  "visiblePixel view ray = Some pix \<Longrightarrow>
   0 \<le> fst pix \<and> fst pix < real_of_int (imageIn_Width view) \<and>
   0 \<le> snd pix \<and> snd pix < real_of_int (imageIn_Height view)"
  by (auto simp: visiblePixel_def Let_def split: if_splits)

lemma oddView_f32:
  "maxRadius_f32 exampleConfig oddView = Finite (101 / 2)"
  "blurMid_f32 exampleConfig oddView = Finite (91 / 2)"
  "dist_f32 oddView (0, 50) = Finite 50"
proof -
  have h: "round32 (101 / 2) = Finite (101 / 2)" "round64 (101 / 2) = Finite (101 / 2)"
    "round32 (91 / 2) = Finite (91 / 2)"
    using round32_half_int [of 101] round64_half_int [of 101] round32_half_int [of 91] by simp_all
  show m: "maxRadius_f32 exampleConfig oddView = Finite (101 / 2)"
    by (simp add: maxRadius_f32_def exampleConfig_def oddView_def exampleView_def fsub_def h)
  show "blurMid_f32 exampleConfig oddView = Finite (91 / 2)"
    unfolding blurMid_f32_def m by (simp add: exampleConfig_def fsub_def h)
  have c: "center oddView = (50, 50)"
  proof -
    have "\<lfloor>101 / 2 :: real\<rfloor> = 50" by linarith
    then show ?thesis by (simp add: center_def trunc_to_int_def oddView_def)
  qed
  have s: "sqrt 2500 = 50"
    by (rule real_sqrt_unique) simp_all
  show "dist_f32 oddView (0, 50) = Finite 50"
    by (simp add: dist_f32_def c fsub_def s)
qed

lemma oddView_visible:
  "visiblePixel oddView (get3DPoint (real_of_int 0, real_of_int 0) 4 4) = Some (0, 50)"
  using top_row_depth [of 4 0 4] by (simp add: visiblePixel_def oddView_def exampleView_def)

text \<open>
  Claim C6.  With fisheye masking, the weight of a projected in-bounds pixel is decided by
  its distance to the image centre \<open>(width/2, height/2)\<close>: nothing beyond \<open>maxRadius\<close>, the
  sigmoid otherwise.  The code computes both halves with \<open>/2.f\<close> and stores them in a
  vector of integers, which truncates them, so that for an odd width or height the
  distance is measured to a point half a pixel away from the centre.  For a 101 by 101
  image (margin 0, transition size 10) the in-bounds pixel \<open>(0, 50)\<close> lies beyond
  \<open>maxRadius = 50.5\<close> from the centre \<open>(50.5, 50.5)\<close> and has no weight by the claim; the
  code measures the distance 50 to \<open>(50, 50)\<close> and gives it the positive weight
  \<open>sigmoid 50 10 45.5\<close>, in exact arithmetic and in binary32 alike.
\<close>

theorem fisheye_center_truncated:
  "maxRadius exampleConfig oddView = 101 / 2 \<and>
   visiblePixel oddView (get3DPoint (real_of_int 0, real_of_int 0) 4 4) = Some (0, 50) \<and>
   spec_dist oddView (0, 50) > maxRadius exampleConfig oddView \<and>
   spec_vignetteWeight exampleConfig oddView (0, 50) = None \<and>
   center oddView = (50, 50) \<and>
   dist_to_center oddView (0, 50) = 50 \<and>
   contribution exampleConfig oddView (0, 50) = Some (sigmoid 50 10 (91 / 2)) \<and>
   maxRadius_f32 exampleConfig oddView = Finite (101 / 2) \<and>
   dist_f32 oddView (0, 50) = Finite 50 \<and>
   contribution_f32 exampleConfig oddView (0, 50) =
     Some (sigmoid_f32 (Finite 50) (Finite 10) (Finite (91 / 2))) \<and>
   fgt (sigmoid_f32 (Finite 50) (Finite 10) (Finite (91 / 2))) (Finite 0)"
proof -
  have m: "maxRadius exampleConfig oddView = 101 / 2"
    by (simp add: maxRadius_def exampleConfig_def oddView_def)
  have k: "blurMid exampleConfig oddView = 91 / 2"
    by (simp add: blurMid_def m) (simp add: exampleConfig_def)
  have f: "fisheyeMasking exampleConfig" and t: "transitionSize exampleConfig = 10"
    by (simp_all add: exampleConfig_def)
  have c: "center oddView = (50, 50)"
  proof -
    have "\<lfloor>101 / 2 :: real\<rfloor> = 50" by linarith
    then show ?thesis by (simp add: center_def trunc_to_int_def oddView_def)
  qed
  have d: "dist_to_center oddView (0, 50) = 50"
    by (simp add: dist_to_center_def c)
  have "(101 / 2 :: real)\<^sup>2 < (0 - 101 / 2)\<^sup>2 + (50 - 101 / 2)\<^sup>2"
    by (simp add: power2_eq_square)
  then have "(101 / 2 :: real) < sqrt ((0 - 101 / 2)\<^sup>2 + (50 - 101 / 2)\<^sup>2)"
    by (rule real_less_rsqrt)
  then have s: "spec_dist oddView (0, 50) > 101 / 2"
    by (simp add: spec_dist_def spec_center_def oddView_def)
  have real_part: "spec_dist oddView (0, 50) > maxRadius exampleConfig oddView"
    "spec_vignetteWeight exampleConfig oddView (0, 50) = None"
    "contribution exampleConfig oddView (0, 50) = Some (sigmoid 50 10 (91 / 2))"
    using s by (simp_all add: contribution_fisheye [OF f] spec_vignetteWeight_def m k t c d)
  have t32: "round32 (transitionSize exampleConfig) = Finite 10"
    by (simp add: t)
  have n: "\<not> fgt (dist_f32 oddView (0, 50)) (maxRadius_f32 exampleConfig oddView)"
    by (simp add: oddView_f32)
  have c32: "contribution_f32 exampleConfig oddView (0, 50) =
      Some (sigmoid_f32 (Finite 50) (Finite 10) (Finite (91 / 2)))"
    using f by (simp add: contribution_f32_def Let_def oddView_f32 t32)
  have dims: "imageIn_Width oddView < 2 ^ 31" "imageIn_Height oddView < 2 ^ 31"
    "(0::real) \<le> fst (0, 50)" "fst (0, 50) < real_of_int (imageIn_Width oddView)"
    "(0::real) \<le> snd (0, 50)" "snd (0, 50) < real_of_int (imageIn_Height oddView)"
    by (simp_all add: oddView_def)
  have p: "(0::real) < 10" by simp
  from accepted_weight_f32 [OF f t32 p dims n] c32
  have "fgt (sigmoid_f32 (Finite 50) (Finite 10) (Finite (91 / 2))) (Finite 0)"
    by auto
  then show ?thesis
    using m oddView_visible real_part c d oddView_f32(1,3) c32 by blast
qed

subsection \<open>The weight of an accepted sample\<close>

lemma round32_tiny_t: "round32 (1025 / 2 ^ 28) = Finite (1025 / 2 ^ 28)"
  using round32_dyadic [of 1025 "- 28"] by (simp add: power_int_minus field_simps)

lemma round32_tiny_half: "round32 (1025 / 2 ^ 28 / 2) = Finite (1025 / 2 ^ 29)"
  using round32_dyadic [of 1025 "- 29"] by (simp add: power_int_minus field_simps)

lemma round32_blurMid_tiny: "round32 (50 - 1025 / 2 ^ 29) = Finite (13107199 / 2 ^ 18)"
proof -
  let ?x = "50 - 1025 / 2 ^ 29 :: real"
  have "rnd 24 (- 126) ?x = 2 powi (5 - (int 24 - 1)) * real_of_int (rne (?x / 2 powi (5 - (int 24 - 1))))"
    by (rule rnd_in_binade) simp_all
  moreover have "rne (?x / 2 powi (5 - (int 24 - 1))) = 13107199"
    by (rule rne_near) (simp add: power_int_minus field_simps)
  ultimately have "rnd 24 (- 126) ?x = 13107199 / 2 ^ 18"
    by (simp add: power_int_minus field_simps)
  then show ?thesis
    by (simp add: round32_def round_to_def)
qed

lemma tiny_weight_f32:
  "\<exists>w. sigmoid_f32 (Finite 50) (Finite (1025 / 2 ^ 28)) (Finite (13107199 / 2 ^ 18)) = Finite w \<and>
       0 < w \<and> w \<le> 1 / 2 ^ 8"
proof -
  have s: "fsub round32 (Finite 50) (Finite (13107199 / 2 ^ 18)) = Finite (1 / 2 ^ 18)"
    using round32_pow2 [of "- 18"] by (simp add: fsub_def power_int_minus field_simps)
  have "\<exists>q. round32 (1 / 2 ^ 18 / (1025 / 2 ^ 28)) = Finite q \<and> 7 / 8 \<le> q \<and> q \<le> 1"
    using round32_dyadic [of 7 "- 3"] by (intro round32_between) (simp_all add: power_int_minus)
  then obtain q where q: "fdiv round32 (Finite (1 / 2 ^ 18)) (Finite (1025 / 2 ^ 28)) = Finite q"
      "7 / 8 \<le> q" "q \<le> 1"
    by auto
  have "\<exists>v. round32 (10 * q) = Finite v \<and> 8 \<le> v \<and> v \<le> 10"
    using q(2,3) by (intro round32_between) simp_all
  then obtain v where v: "fmul round32 (Finite 10) (Finite q) = Finite v" "8 \<le> v" "v \<le> 10"
    by auto
  have "(2::real) powi 8 \<le> exp (real_of_int 8)"
    by (rule exp_ge_pow2) simp
  also have "exp (real_of_int 8) \<le> exp v"
    using v(2) by simp
  finally have lo: "256 \<le> exp v" by simp
  have "exp v \<le> exp (real 10)"
    using v(3) by simp
  also have "exp (real 10) \<le> 3 ^ 10"
    by (rule exp_le_pow3)
  finally have hi: "exp v \<le> 65536" by simp
  have "\<exists>e. round32 (exp v) = Finite e \<and> 256 \<le> e \<and> e \<le> 65536"
    using lo hi by (intro round32_between) simp_all
  then obtain e where e: "fexp round32 (Finite v) = Finite e" "256 \<le> e" "e \<le> 65536"
    by auto
  have "\<exists>d. round32 (1 + e) = Finite d \<and> 256 \<le> d \<and> d \<le> 131072"
    using e(2,3) by (intro round32_between) simp_all
  then obtain d where d: "fadd round32 (Finite 1) (Finite e) = Finite d" "256 \<le> d" "d \<le> 131072"
    by auto
  have "1 / 131072 \<le> 1 / d" and "1 / d \<le> 1 / 256"
    using d(2,3) by (simp_all add: field_simps)
  moreover have "round32 (1 / 131072) = Finite (1 / 131072)" and "round32 (1 / 256) = Finite (1 / 256)"
    using round32_pow2 [of "- 17"] round32_pow2 [of "- 8"] by (simp_all add: power_int_minus)
  ultimately have "\<exists>w. round32 (1 / d) = Finite w \<and> 1 / 131072 \<le> w \<and> w \<le> 1 / 256"
    by (intro round32_between)
  then obtain w where w: "fdiv round32 (Finite 1) (Finite d) = Finite w" "1 / 131072 \<le> w" "w \<le> 1 / 256"
    using d(2) by auto
  have "sigmoid_f32 (Finite 50) (Finite (1025 / 2 ^ 28)) (Finite (13107199 / 2 ^ 18)) = Finite w"
    unfolding sigmoid_f32_def s q(1) v(1) e(1) d(1) w(1) ..
  moreover have "0 < w" using w(2) by simp
  ultimately show ?thesis using w(3) by auto
qed

lemma bound_above_tiny: "1 / 2 ^ 8 < 1 / (1 + exp (5::real))"
proof -
  have "exp (real 5) \<le> 3 ^ 5"
    by (rule exp_le_pow3)
  then have "1 + exp (5::real) < 2 ^ 8"
    by simp
  moreover have "0 < 1 + exp (5::real)"
    by (simp add: add_pos_pos)
  ultimately show ?thesis
    by (simp add: frac_less2)
qed

lemma tiny_blurMid_f32: "blurMid_f32 tinyTransitionConfig rimView = Finite (13107199 / 2 ^ 18)"
proof -
  have m: "maxRadius_f32 tinyTransitionConfig rimView = Finite 50"
    by (rule rimView_maxRadius_f32) (simp add: tinyTransitionConfig_def)
  have t: "transitionSize tinyTransitionConfig = 1025 / 2 ^ 28"
    by (simp add: tinyTransitionConfig_def)
  show ?thesis
    unfolding blurMid_f32_def m t round32_tiny_t
    using round32_tiny_half round32_blurMid_tiny by (simp add: fsub_def)
qed

lemma rim_visible: "visiblePixel rimView (get3DPoint (real_of_int 0, real_of_int 0) 4 4) = Some (50, 0)"
  unfolding rimView_def by (simp only: top_visible) simp

text \<open>
  Claim C10, as stated: with fisheye masking and a positive transition size, a sample that
  passes the depth test, the bounds test and the radius test has a weight of at least
  \<open>1/(1 + e\<^sup>5)\<close>.  It fails in binary32: with the transition size \<open>1025 / 2 ^ 28\<close> and a
  100 by 100 image (margin 0), \<open>blurMid\<close> rounds to \<open>50 - 1 / 2 ^ 18\<close>; the in-bounds pixel
  \<open>(50, 0)\<close>, at the distance \<open>50 = maxRadius\<close>, passes the three tests and gets a positive
  weight of at most \<open>1/256\<close>, which is below \<open>1/(1 + e\<^sup>5)\<close>.
\<close>

theorem accepted_sample_below_bound:
  "fisheyeMasking tinyTransitionConfig \<and> 0 < transitionSize tinyTransitionConfig \<and>
   round32 (transitionSize tinyTransitionConfig) = Finite (transitionSize tinyTransitionConfig) \<and>
   visiblePixel rimView (get3DPoint (real_of_int 0, real_of_int 0) 4 4) = Some (50, 0) \<and>
   dist_f32 rimView (50, 0) = Finite 50 \<and>
   maxRadius_f32 tinyTransitionConfig rimView = Finite 50 \<and>
   \<not> fgt (dist_f32 rimView (50, 0)) (maxRadius_f32 tinyTransitionConfig rimView) \<and>
   contribution_f32 tinyTransitionConfig rimView (50, 0) =
     Some (sigmoid_f32 (Finite 50) (Finite (1025 / 2 ^ 28)) (Finite (13107199 / 2 ^ 18))) \<and>
   fgt (sigmoid_f32 (Finite 50) (Finite (1025 / 2 ^ 28)) (Finite (13107199 / 2 ^ 18))) (Finite 0) \<and>
   fle (sigmoid_f32 (Finite 50) (Finite (1025 / 2 ^ 28)) (Finite (13107199 / 2 ^ 18)))
     (Finite (1 / 2 ^ 8)) \<and>
   1 / 2 ^ 8 < 1 / (1 + exp (5::real))"
proof -
  have m: "maxRadius_f32 tinyTransitionConfig rimView = Finite 50"
    by (rule rimView_maxRadius_f32) (simp add: tinyTransitionConfig_def)
  have t: "transitionSize tinyTransitionConfig = 1025 / 2 ^ 28"
    and f: "fisheyeMasking tinyTransitionConfig"
    by (simp_all add: tinyTransitionConfig_def)
  have c: "contribution_f32 tinyTransitionConfig rimView (50, 0) =
      Some (sigmoid_f32 (Finite 50) (Finite (1025 / 2 ^ 28)) (Finite (13107199 / 2 ^ 18)))"
    unfolding contribution_f32_def Let_def rimView_dist_f32 m tiny_blurMid_f32 t round32_tiny_t
    using f by simp
  from tiny_weight_f32 obtain w where
    w: "sigmoid_f32 (Finite 50) (Finite (1025 / 2 ^ 28)) (Finite (13107199 / 2 ^ 18)) = Finite w"
      "0 < w" "w \<le> 1 / 2 ^ 8"
    by blast
  have g: "fgt (sigmoid_f32 (Finite 50) (Finite (1025 / 2 ^ 28)) (Finite (13107199 / 2 ^ 18))) (Finite 0)"
    and l: "fle (sigmoid_f32 (Finite 50) (Finite (1025 / 2 ^ 28)) (Finite (13107199 / 2 ^ 18)))
     (Finite (1 / 2 ^ 8))"
    using w by simp_all
  have p: "0 < transitionSize tinyTransitionConfig"
    and r: "round32 (transitionSize tinyTransitionConfig) = Finite (transitionSize tinyTransitionConfig)"
    using round32_tiny_t by (simp_all add: t)
  have n: "\<not> fgt (dist_f32 rimView (50, 0)) (maxRadius_f32 tinyTransitionConfig rimView)"
    by (simp add: rimView_dist_f32 m)
  show ?thesis
    using f p r rim_visible rimView_dist_f32 m n c g l bound_above_tiny by blast
qed

text \<open>
  Claim C10, amended.  With fisheye masking and a transition size that is a finite positive
  \<open>float\<close>, a sample that passes the depth test, the bounds test and the radius test has a
  weight that is positive, at least \<open>1 / 2 ^ 33\<close> and at most 1; the guard
  \<open>contribution > 0\<close> lets it through, and the weighted colour and the weight are added to
  the cell.  The width and the height of the source image are C++ \<open>int\<close>s, below \<open>2 ^ 31\<close>.
\<close>

theorem accepted_sample_positive_weight_f32:
  assumes "fisheyeMasking cfg"
    and "round32 (transitionSize cfg) = Finite t" and "0 < t"
    and "imageIn_Width view < 2 ^ 31" and "imageIn_Height view < 2 ^ 31"
    and "visiblePixel view (get3DPoint (real_of_int x, real_of_int y) outW outH) = Some pix"
    and "\<not> fgt (dist_f32 view pix) (maxRadius_f32 cfg view)"
  shows "\<exists>w. contribution_f32 cfg view pix = Some (Finite w) \<and>
             1 / 2 ^ 33 \<le> w \<and> w \<le> 1 \<and> fgt (Finite w) (Finite 0) \<and>
             accumulate_f32 cell px (Finite w) =
               cell\<lparr>r32 := fadd round32 (r32 cell) (fmul round32 (r32 px) (Finite w)),
                    g32 := fadd round32 (g32 cell) (fmul round32 (g32 px) (Finite w)),
                    b32 := fadd round32 (b32 cell) (fmul round32 (b32 px) (Finite w)),
                    a32 := fadd round32 (a32 cell) (Finite w)\<rparr>"
proof -
  note b = visiblePixel_bounds [OF assms(6)]
  from b have b1: "0 \<le> fst pix" and b2: "fst pix < real_of_int (imageIn_Width view)"
    and b3: "0 \<le> snd pix" and b4: "snd pix < real_of_int (imageIn_Height view)"
    by blast+
  from accepted_weight_f32 [OF assms(1-5) b1 b2 b3 b4 assms(7)]
  obtain w where w: "contribution_f32 cfg view pix = Some (Finite w)"
    "1 / 2 ^ 33 \<le> w" "w \<le> 1"
    by blast
  have "(0::real) < 1 / 2 ^ 33" by simp
  then have pos: "0 < w" using w(2) by (rule less_le_trans)
  then have "fgt (Finite w) (Finite 0)" by simp
  with w accumulate_f32_positive [OF pos, of cell px] show ?thesis
    by blast
qed

theorem accepted_sample_positive_weight_f32_witness:
  "fisheyeMasking exampleConfig \<and> round32 (transitionSize exampleConfig) = Finite 10 \<and>
   (0::real) < 10 \<and> imageIn_Width rimView < 2 ^ 31 \<and> imageIn_Height rimView < 2 ^ 31 \<and>
   visiblePixel rimView (get3DPoint (real_of_int 0, real_of_int 0) 4 4) = Some (50, 0) \<and>
   \<not> fgt (dist_f32 rimView (50, 0)) (maxRadius_f32 exampleConfig rimView) \<and>
   (\<exists>w. contribution_f32 exampleConfig rimView (50, 0) = Some (Finite w) \<and>
        1 / 2 ^ 33 \<le> w \<and> w \<le> 1 \<and> fgt (Finite w) (Finite 0) \<and>
        accumulate_f32 emptyCell_f32 exampleColor_f32 (Finite w) =
          emptyCell_f32\<lparr>r32 := fadd round32 (r32 emptyCell_f32) (fmul round32 (r32 exampleColor_f32) (Finite w)),
                        g32 := fadd round32 (g32 emptyCell_f32) (fmul round32 (g32 exampleColor_f32) (Finite w)),
                        b32 := fadd round32 (b32 emptyCell_f32) (fmul round32 (b32 exampleColor_f32) (Finite w)),
                        a32 := fadd round32 (a32 emptyCell_f32) (Finite w)\<rparr>)"
proof -
  have f: "fisheyeMasking exampleConfig"
    and t: "round32 (transitionSize exampleConfig) = Finite 10"
    by (simp_all add: exampleConfig_def)
  have p: "(0::real) < 10" by simp
  have d: "imageIn_Width rimView < 2 ^ 31" "imageIn_Height rimView < 2 ^ 31"
    by (simp_all add: rimView_def exampleView_def)
  have m: "maxRadius_f32 exampleConfig rimView = Finite 50"
    by (rule rimView_maxRadius_f32) (simp add: exampleConfig_def)
  have n: "\<not> fgt (dist_f32 rimView (50, 0)) (maxRadius_f32 exampleConfig rimView)"
    by (simp add: rimView_dist_f32 m)
  from accepted_sample_positive_weight_f32 [OF f t p d rim_visible n, of emptyCell_f32 exampleColor_f32]
  show ?thesis
    using f t p d rim_visible n by blast
qed

subsection \<open>A run: accumulation and normalisation\<close>

text \<open>
  After the passes of all views, the cell of an output pixel holds the initial cell plus
  the weighted colours and the weights of the samples that reach it.
\<close>

lemma newImage_simps [simp]:
  "Width (newImage w h) = w" "Height (newImage w h) = h"
  "pixel (newImage w h) y x = \<lparr>r = 0, g = 0, b = 0, a = 0\<rparr>"
  by (simp_all add: newImage_def)

lemma stitchViews_dims:
  "Width (stitchViews cfg views img) = Width img \<and> Height (stitchViews cfg views img) = Height img"
  by (induction views arbitrary: img) (simp_all add: stitchView_dims)

lemma pixelStep_sampleAt:
  "pixelStep cfg view outW outH x y cell =
     (case sampleAt cfg view outW outH x y of
        None \<Rightarrow> cell
      | Some (px, c) \<Rightarrow>
          cell\<lparr>r := r cell + r px * c, g := g cell + g px * c, b := b cell + b px * c,
               a := a cell + c\<rparr>)"
  by (simp add: pixelStep_def sampleAt_def accumulate_def split: option.splits)

lemma sampleAt_pos: "sampleAt cfg view outW outH x y = Some (px, c) \<Longrightarrow> 0 < c"
  by (auto simp: sampleAt_def split: option.splits if_splits)

lemma stitchViews_out_of_range:
  "\<not> (0 \<le> y \<and> y < Height img \<and> 0 \<le> x \<and> x < Width img) \<Longrightarrow>
   pixel (stitchViews cfg views img) y x = pixel img y x"
proof (induction views arbitrary: img)
  case Nil
  then show ?case by simp
next
  case (Cons view views)
  then show ?case by (auto simp: stitchView_dims stitchView_pixel)
qed

lemma stitchViews_sums:
  assumes "0 \<le> y" "y < Height img" "0 \<le> x" "x < Width img"
  shows "r (pixel (stitchViews cfg views img) y x) =
           r (pixel img y x) + (\<Sum>(px, c)\<leftarrow>samplesAt cfg views (Width img) (Height img) x y. r px * c) \<and>
         g (pixel (stitchViews cfg views img) y x) =
           g (pixel img y x) + (\<Sum>(px, c)\<leftarrow>samplesAt cfg views (Width img) (Height img) x y. g px * c) \<and>
         b (pixel (stitchViews cfg views img) y x) =
           b (pixel img y x) + (\<Sum>(px, c)\<leftarrow>samplesAt cfg views (Width img) (Height img) x y. b px * c) \<and>
         a (pixel (stitchViews cfg views img) y x) =
           a (pixel img y x) + (\<Sum>(px, c)\<leftarrow>samplesAt cfg views (Width img) (Height img) x y. c)"
  using assms
proof (induction views arbitrary: img)
  case Nil
  then show ?case by (simp add: samplesAt_def map_filter_simps)
next
  case (Cons view views)
  show ?case
  proof (cases "isPoseAndIntrinsicDefined view")
    case False
    with Cons show ?thesis by (simp add: samplesAt_def)
  next
    case True
    let ?img = "stitchView cfg view img"
    have dims: "Width ?img = Width img" "Height ?img = Height img"
      by (simp_all add: stitchView_dims)
    have px: "pixel ?img y x = pixelStep cfg view (Width img) (Height img) x y (pixel img y x)"
      using Cons.prems by (simp add: stitchView_pixel)
    have IH: "r (pixel (stitchViews cfg views ?img) y x) =
           r (pixel ?img y x) + (\<Sum>(px, c)\<leftarrow>samplesAt cfg views (Width img) (Height img) x y. r px * c) \<and>
         g (pixel (stitchViews cfg views ?img) y x) =
           g (pixel ?img y x) + (\<Sum>(px, c)\<leftarrow>samplesAt cfg views (Width img) (Height img) x y. g px * c) \<and>
         b (pixel (stitchViews cfg views ?img) y x) =
           b (pixel ?img y x) + (\<Sum>(px, c)\<leftarrow>samplesAt cfg views (Width img) (Height img) x y. b px * c) \<and>
         a (pixel (stitchViews cfg views ?img) y x) =
           a (pixel ?img y x) + (\<Sum>(px, c)\<leftarrow>samplesAt cfg views (Width img) (Height img) x y. c)"
      using Cons.IH [of ?img] Cons.prems by (simp add: dims)
    show ?thesis
    proof (cases "sampleAt cfg view (Width img) (Height img) x y")
      case None
      then show ?thesis
        using True IH by (simp add: px pixelStep_sampleAt samplesAt_def map_filter_simps)
    next
      case (Some s)
      then show ?thesis
        using True IH
        by (cases s) (simp add: px pixelStep_sampleAt samplesAt_def map_filter_simps)
    qed
  qed
qed

lemma stitchViews_no_samples:
  "samplesAt cfg views (Width img) (Height img) x y = [] \<Longrightarrow>
   pixel (stitchViews cfg views img) y x = pixel img y x"
proof (induction views arbitrary: img)
  case Nil
  then show ?case by simp
next
  case (Cons view views)
  show ?case
  proof (cases "isPoseAndIntrinsicDefined view")
    case False
    with Cons show ?thesis by (simp add: samplesAt_def)
  next
    case True
    from Cons.prems True
    have none: "sampleAt cfg view (Width img) (Height img) x y = None"
      and rest: "samplesAt cfg views (Width img) (Height img) x y = []"
      by (auto simp: samplesAt_def map_filter_simps split: option.splits)
    have "pixel (stitchView cfg view img) y x = pixel img y x"
      by (simp add: stitchView_pixel pixelStep_sampleAt none)
    moreover have "pixel (stitchViews cfg views (stitchView cfg view img)) y x =
        pixel (stitchView cfg view img) y x"
      using Cons.IH [of "stitchView cfg view img"] rest by (simp add: stitchView_dims)
    ultimately show ?thesis using True by simp
  qed
qed

lemma ray_top_row: "snd (snd (get3DPoint (0, 0) 4 4)) = 1"
proof -
  have l: "latitude 0 4 = pi / 2"
    by (simp add: latitude_def)
  show ?thesis
    unfolding get3DPoint_def Let_def snd_conv fst_conv l by simp
qed

lemma plain_samples:
  "samplesAt plainConfig [exampleView, otherView] 4 4 0 0 =
     [(\<lparr>r = 1, g = 1 / 2, b = 1 / 4\<rparr>, 1), (\<lparr>r = 0, g = 1, b = 1 / 4\<rparr>, 1)]"
proof -
  have v1: "visiblePixel exampleView (get3DPoint (0, 0) 4 4) = Some (50, 5)"
    using ray_top_row by (simp add: visiblePixel_def exampleView_def)
  have v2: "visiblePixel otherView (get3DPoint (0, 0) 4 4) = Some (50, 5)"
    using ray_top_row by (simp add: visiblePixel_def otherView_def exampleView_def)
  have c: "\<And>view pix. contribution plainConfig view pix = Some 1"
    by (simp add: contribution_def plainConfig_def)
  have s1: "sampleAt plainConfig exampleView 4 4 0 0 = Some (\<lparr>r = 1, g = 1 / 2, b = 1 / 4\<rparr>, 1)"
    by (simp add: sampleAt_def v1 c) (simp add: exampleView_def)
  have s2: "sampleAt plainConfig otherView 4 4 0 0 = Some (\<lparr>r = 0, g = 1, b = 1 / 4\<rparr>, 1)"
    by (simp add: sampleAt_def v2 c) (simp add: otherView_def)
  have valid: "isPoseAndIntrinsicDefined exampleView" "isPoseAndIntrinsicDefined otherView"
    by (simp_all add: otherView_def exampleView_def)
  show ?thesis
    by (simp add: samplesAt_def valid map_filter_simps s1 s2)
qed

lemma behind_no_samples: "samplesAt exampleConfig [exampleView] 4 4 0 3 = []"
proof -
  have "visiblePixel exampleView (get3DPoint (0, 3) 4 4) = None"
    using example_ray_behind by (simp add: visiblePixel_def exampleView_def)
  then show ?thesis
    by (simp add: samplesAt_def sampleAt_def map_filter_simps)
qed

text \<open>
  Claim C1.  For a cell of the output image that is reached by the samples
  \<open>(c\<^sub>1, w\<^sub>1), \<dots>, (c\<^sub>k, w\<^sub>k)\<close> with accumulated weight \<open>W = \<Sum> w\<^sub>i > 0.0001\<close>, the run ends with
  the colour \<open>(\<Sum> w\<^sub>i c\<^sub>i) / W\<close> in each of \<open>r\<close>, \<open>g\<close>, \<open>b\<close>, and with alpha equal to \<open>W\<close>.
\<close>

theorem weighted_average:
  assumes "0 \<le> x" and "x < width" and "0 \<le> y" and "y < height"
    and "samples = samplesAt cfg views width height x y"
    and "W = (\<Sum>(c, w)\<leftarrow>samples. w)"
    and "W > 0.0001"
    and "out = pixel (normalizeImage (stitchViews cfg views (newImage width height))) y x"
  shows "r out = (\<Sum>(c, w)\<leftarrow>samples. w * r c) / W \<and>
         g out = (\<Sum>(c, w)\<leftarrow>samples. w * g c) / W \<and>
         b out = (\<Sum>(c, w)\<leftarrow>samples. w * b c) / W \<and>
         a out = W"
proof -
  let ?acc = "pixel (stitchViews cfg views (newImage width height)) y x"
  have sums: "r ?acc = (\<Sum>(c, w)\<leftarrow>samples. r c * w)" "g ?acc = (\<Sum>(c, w)\<leftarrow>samples. g c * w)"
    "b ?acc = (\<Sum>(c, w)\<leftarrow>samples. b c * w)" "a ?acc = W"
    using stitchViews_sums [of y "newImage width height" x cfg views] assms(1-6)
    by simp_all
  have out: "out = normalizePixel ?acc"
    using assms(1-4) by (simp add: assms(8) normalizeImage_pixel stitchViews_dims)
  have comm: "(\<lambda>(c, w). r c * w) = (\<lambda>(c, w). w * r c)" "(\<lambda>(c, w). g c * w) = (\<lambda>(c, w). w * g c)"
    "(\<lambda>(c, w). b c * w) = (\<lambda>(c, w). w * b c)"
    by (auto simp: fun_eq_iff)
  show ?thesis
    using assms(7) by (simp add: out normalizePixel_def sums comm)
qed

theorem weighted_average_witness:
  "(\<Sum>(c, w)\<leftarrow>samplesAt plainConfig [exampleView, otherView] 4 4 0 0. w) > 0.0001 \<and>
   r (pixel (normalizeImage (stitchViews plainConfig [exampleView, otherView] (newImage 4 4))) 0 0) = 1 / 2 \<and>
   g (pixel (normalizeImage (stitchViews plainConfig [exampleView, otherView] (newImage 4 4))) 0 0) = 3 / 4 \<and>
   b (pixel (normalizeImage (stitchViews plainConfig [exampleView, otherView] (newImage 4 4))) 0 0) = 1 / 4 \<and>
   a (pixel (normalizeImage (stitchViews plainConfig [exampleView, otherView] (newImage 4 4))) 0 0) = 2"
proof -
  have h: "(\<Sum>(c, w)\<leftarrow>samplesAt plainConfig [exampleView, otherView] 4 4 0 0. w) > 0.0001"
    by (simp add: plain_samples)
  have "(0::int) \<le> 0" and "(0::int) < 4"
    by simp_all
  from weighted_average [OF this this refl refl h refl] h
  show ?thesis
    by (simp add: plain_samples del: stitchViews.simps)
qed

text \<open>
  A weight that is positive and at most \<open>0.0001\<close>: with the transition size \<open>-10\<close>, which
  the program accepts, the centre of a 100 by 100 image has the weight \<open>1/(1 + e\<^sup>5\<^sup>5)\<close>.
\<close>

lemma exp_55_large: "(9999::real) \<le> exp 55"
proof -
  have "(12::real) \<le> exp 11"
    using exp_ge_add_one_self [of "11::real"] by simp
  then have "(12::real) ^ 5 \<le> exp 11 ^ 5"
    by (intro power_mono) simp_all
  moreover have "exp (11::real) ^ 5 = exp 55"
    using exp_of_nat_mult [of 5 "11::real"] by simp
  ultimately show ?thesis by simp
qed

lemma tiny_weight_value: "sigmoid 0 (- 10) 55 = 1 / (1 + exp 55)"
  by (simp add: sigmoid_def)

lemma tiny_weight_small: "sigmoid 0 (- 10) 55 \<le> 0.0001"
proof -
  have "1 / (1 + exp 55) \<le> 1 / (10000 :: real)"
    using exp_55_large by (intro divide_left_mono) simp_all
  then show ?thesis
    unfolding tiny_weight_value by simp
qed

lemma centreView_sample:
  assumes "0 < outH"
  shows "sampleAt negativeTransitionConfig centreView outW outH 0 0 =
     Some (\<lparr>r = 1, g = 1 / 2, b = 1 / 4\<rparr>, sigmoid 0 (- 10) 55)"
proof -
  have v: "visiblePixel centreView (get3DPoint (real_of_int 0, real_of_int 0) outW outH) = Some (50, 50)"
    using top_row_depth [OF assms, of 0 outW] by (simp add: visiblePixel_def centreView_def)
  have c: "center centreView = (50, 50)"
    by (simp add: center_def trunc_to_int_def centreView_def)
  have d: "dist_to_center centreView (50, 50) = 0"
    by (simp add: dist_to_center_def c)
  have m: "maxRadius negativeTransitionConfig centreView = 50"
    by (simp add: maxRadius_def negativeTransitionConfig_def centreView_def)
  have k: "blurMid negativeTransitionConfig centreView = 55"
    by (simp add: blurMid_def m) (simp add: negativeTransitionConfig_def)
  have w: "contribution negativeTransitionConfig centreView (50, 50) = Some (sigmoid 0 (- 10) 55)"
    by (simp add: contribution_def d m k) (simp add: negativeTransitionConfig_def)
  have pos: "0 < sigmoid 0 (- 10) 55"
    by (rule sigmoid_pos)
  have smp: "sampler centreView 50 50 = \<lparr>r = 1, g = 1 / 2, b = 1 / 4\<rparr>"
    by (simp add: centreView_def)
  show ?thesis
    unfolding sampleAt_def using v by (simp add: w pos smp)
qed

lemma centreView_accumulated:
  assumes "0 < outW" and "0 < outH"
  shows "pixel (stitchViews negativeTransitionConfig [centreView] (newImage outW outH)) 0 0 =
     \<lparr>r = sigmoid 0 (- 10) 55, g = 1 / 2 * sigmoid 0 (- 10) 55, b = 1 / 4 * sigmoid 0 (- 10) 55,
      a = sigmoid 0 (- 10) 55\<rparr>"
proof -
  have "isPoseAndIntrinsicDefined centreView"
    by (simp add: centreView_def)
  then show ?thesis
    using assms by (simp add: stitchView_pixel pixelStep_sampleAt centreView_sample)
qed

lemma centreView_accumulated_4:
  "pixel (stitchViews negativeTransitionConfig [centreView] (newImage 4 4)) 0 0 =
     \<lparr>r = sigmoid 0 (- 10) 55, g = 1 / 2 * sigmoid 0 (- 10) 55, b = 1 / 4 * sigmoid 0 (- 10) 55,
      a = sigmoid 0 (- 10) 55\<rparr>"
  by (rule centreView_accumulated) simp_all

text \<open>
  Claim C2, as stated: after normalisation every cell whose accumulated weight is at most
  \<open>0.0001\<close> is all-zero, also when that weight is positive.  It fails: the cell \<open>(0, 0)\<close> of
  the run below has the accumulated weight \<open>1/(1 + e\<^sup>5\<^sup>5)\<close>, positive and below the threshold,
  and keeps its accumulated colour and weight.
\<close>

theorem small_weight_cell_not_zeroed:
  "0 < a (pixel (stitchViews negativeTransitionConfig [centreView] (newImage 4 4)) 0 0) \<and>
   a (pixel (stitchViews negativeTransitionConfig [centreView] (newImage 4 4)) 0 0) \<le> 0.0001 \<and>
   r (pixel (normalizeImage (stitchViews negativeTransitionConfig [centreView] (newImage 4 4))) 0 0) = 1 / (1 + exp 55) \<and>
   a (pixel (normalizeImage (stitchViews negativeTransitionConfig [centreView] (newImage 4 4))) 0 0) = 1 / (1 + exp 55) \<and>
   pixel (normalizeImage (stitchViews negativeTransitionConfig [centreView] (newImage 4 4))) 0 0 \<noteq>
     \<lparr>r = 0, g = 0, b = 0, a = 0\<rparr>"
proof -
  let ?acc = "pixel (stitchViews negativeTransitionConfig [centreView] (newImage 4 4)) 0 0"
  have n: "pixel (normalizeImage (stitchViews negativeTransitionConfig [centreView] (newImage 4 4))) 0 0 =
      normalizePixel ?acc"
    unfolding normalizeImage_pixel
    using stitchViews_dims [of negativeTransitionConfig "[centreView]" "newImage 4 4"]
    by (simp del: stitchViews.simps)
  have s: "normalizePixel ?acc = ?acc"
    unfolding centreView_accumulated_4 using tiny_weight_small by (simp add: normalizePixel_def)
  have pos: "0 < sigmoid 0 (- 10) 55"
    by (rule sigmoid_pos)
  have "0 < a ?acc \<and> a ?acc \<le> 0.0001 \<and> r ?acc = sigmoid 0 (- 10) 55 \<and>
      a ?acc = sigmoid 0 (- 10) 55 \<and> ?acc \<noteq> \<lparr>r = 0, g = 0, b = 0, a = 0\<rparr>"
    unfolding centreView_accumulated_4 using tiny_weight_small pos by simp
  then show ?thesis
    unfolding n s tiny_weight_value .
qed

text \<open>
  Claim C2, amended.  After normalisation, a cell whose accumulated weight exceeds
  \<open>0.0001\<close> has \<open>r\<close>, \<open>g\<close>, \<open>b\<close> divided by that weight and keeps the weight; every other cell
  is left exactly as accumulated; a cell that no sample reaches ends as \<open>(0, 0, 0, 0)\<close>.
\<close>

theorem normalization_keeps_small_weights:
  assumes "0 \<le> x" and "x < width" and "0 \<le> y" and "y < height"
    and "acc = pixel (stitchViews cfg views (newImage width height)) y x"
    and "out = pixel (normalizeImage (stitchViews cfg views (newImage width height))) y x"
  shows "(a acc > 0.0001 \<longrightarrow>
            r out = r acc / a acc \<and> g out = g acc / a acc \<and> b out = b acc / a acc \<and> a out = a acc) \<and>
         (a acc \<le> 0.0001 \<longrightarrow> out = acc) \<and>
         (samplesAt cfg views width height x y = [] \<longrightarrow> out = \<lparr>r = 0, g = 0, b = 0, a = 0\<rparr>)"
proof -
  have out: "out = normalizePixel acc"
    using assms(1-4) by (simp add: assms(5,6) normalizeImage_pixel stitchViews_dims)
  have "samplesAt cfg views width height x y = [] \<Longrightarrow> acc = \<lparr>r = 0, g = 0, b = 0, a = 0\<rparr>"
    using stitchViews_no_samples [of cfg views "newImage width height" x y]
    by (simp add: assms(5))
  then show ?thesis
    by (auto simp: out normalizePixel_def)
qed

theorem normalization_keeps_small_weights_witness:
  "a (pixel (stitchViews plainConfig [exampleView, otherView] (newImage 4 4)) 0 0) > 0.0001 \<and>
   a (pixel (normalizeImage (stitchViews plainConfig [exampleView, otherView] (newImage 4 4))) 0 0) =
     a (pixel (stitchViews plainConfig [exampleView, otherView] (newImage 4 4)) 0 0) \<and>
   a (pixel (stitchViews negativeTransitionConfig [centreView] (newImage 4 4)) 0 0) \<le> 0.0001 \<and>
   pixel (normalizeImage (stitchViews negativeTransitionConfig [centreView] (newImage 4 4))) 0 0 =
     pixel (stitchViews negativeTransitionConfig [centreView] (newImage 4 4)) 0 0 \<and>
   samplesAt exampleConfig [exampleView] 4 4 0 3 = [] \<and>
   pixel (normalizeImage (stitchViews exampleConfig [exampleView] (newImage 4 4))) 3 0 =
     \<lparr>r = 0, g = 0, b = 0, a = 0\<rparr>"
proof -
  have i: "(0::int) \<le> 0" "(0::int) < 4" "(0::int) \<le> 3" "(3::int) < 4"
    by simp_all
  have big: "a (pixel (stitchViews plainConfig [exampleView, otherView] (newImage 4 4)) 0 0) > 0.0001"
    using stitchViews_sums [of 0 "newImage 4 4" 0 plainConfig "[exampleView, otherView]"]
    by (simp add: plain_samples del: stitchViews.simps)
  have small: "a (pixel (stitchViews negativeTransitionConfig [centreView] (newImage 4 4)) 0 0) \<le> 0.0001"
    unfolding centreView_accumulated_4 using tiny_weight_small by simp
  note n1 = normalization_keeps_small_weights [OF i(1,2) i(1,2) refl refl, of plainConfig "[exampleView, otherView]"]
  note n2 = normalization_keeps_small_weights [OF i(1,2) i(1,2) refl refl, of negativeTransitionConfig "[centreView]"]
  note n3 = normalization_keeps_small_weights [OF i(1,2) i(3,4) refl refl, of exampleConfig "[exampleView]"]
  show ?thesis
    using n1 n2 n3 big small behind_no_samples by blast
qed

subsection \<open>The weight of a cell is never negative\<close>

lemma accumulate_weight_nonneg: "0 \<le> a cell \<Longrightarrow> 0 \<le> a (accumulate cell px c)"
  by (simp add: accumulate_def)

lemma pixelStep_weight_nonneg: "0 \<le> a cell \<Longrightarrow> 0 \<le> a (pixelStep cfg view outW outH x y cell)"
  by (simp add: pixelStep_def accumulate_weight_nonneg split: option.splits)

lemma normalizePixel_weight: "a (normalizePixel cell) = a cell"
  by (simp add: normalizePixel_def)

lemma stitchView_weights_nonneg:
  "\<forall>y x. 0 \<le> a (pixel img y x) \<Longrightarrow> \<forall>y x. 0 \<le> a (pixel (stitchView cfg view img) y x)"
  by (simp add: stitchView_pixel pixelStep_weight_nonneg)

lemma normalizeImage_weights_nonneg:
  "\<forall>y x. 0 \<le> a (pixel img y x) \<Longrightarrow> \<forall>y x. 0 \<le> a (pixel (normalizeImage img) y x)"
  by (simp add: normalizeImage_pixel normalizePixel_weight)

lemma stitchStates_weights_nonneg:
  "\<forall>y x. 0 \<le> a (pixel img y x) \<Longrightarrow>
   \<forall>s \<in> set (stitchStates cfg views img). \<forall>y x. 0 \<le> a (pixel s y x)"
proof (induction views arbitrary: img)
  case Nil
  then show ?case by simp
next
  case (Cons view views)
  from Cons.prems have "\<forall>y x. 0 \<le> a (pixel (stitchView cfg view img) y x)"
    by (rule stitchView_weights_nonneg)
  with Cons show ?case by simp
qed

lemma last_stitchStates:
  "last (img # stitchStates cfg views img) = stitchViews cfg views img"
proof (induction views arbitrary: img)
  case Nil
  show ?case by simp
next
  case (Cons view views)
  show ?case
  proof (cases "isPoseAndIntrinsicDefined view")
    case False
    then show ?thesis using Cons.IH [of img] by simp
  next
    case True
    have "last (img # stitchStates cfg (view # views) img) =
        last (stitchView cfg view img # stitchStates cfg views (stitchView cfg view img))"
      using True by (simp del: last.simps add: last_ConsR)
    then show ?thesis
      using True Cons.IH [of "stitchView cfg view img"] by (simp del: last.simps)
  qed
qed

text \<open>
  Claim C9.  In every state of a run (the new image, the image after the pass of each
  view, the normalised image, which is the last state and the result of the run) the
  weight of every cell is at least 0; and the loop body for one pixel and one view keeps a
  weight that is at least 0 so.
\<close>

theorem weights_nonnegative:
  "(\<forall>img \<in> set (runStates cfg views width height). \<forall>y x. 0 \<le> a (pixel img y x)) \<and>
   hd (runStates cfg views width height) = newImage width height \<and>
   last (runStates cfg views width height) =
     normalizeImage (stitchViews cfg views (newImage width height)) \<and>
   (\<forall>cell. 0 \<le> a cell \<longrightarrow> 0 \<le> a (pixelStep cfg view outW outH x y cell))"
proof -
  let ?img0 = "newImage width height"
  have zero: "\<forall>y x. 0 \<le> a (pixel ?img0 y x)"
    by simp
  have mid: "\<forall>s \<in> set (?img0 # stitchStates cfg views ?img0). \<forall>y x. 0 \<le> a (pixel s y x)"
    using stitchStates_weights_nonneg [OF zero, of cfg views] by simp
  have "last (?img0 # stitchStates cfg views ?img0) \<in> set (?img0 # stitchStates cfg views ?img0)"
    by (rule last_in_set) simp
  with mid have "\<forall>y x. 0 \<le> a (pixel (last (?img0 # stitchStates cfg views ?img0)) y x)"
    by blast
  then have fin: "\<forall>y x. 0 \<le> a (pixel (normalizeImage (last (?img0 # stitchStates cfg views ?img0))) y x)"
    by (rule normalizeImage_weights_nonneg)
  have 1: "\<forall>img \<in> set (runStates cfg views width height). \<forall>y x. 0 \<le> a (pixel img y x)"
    unfolding runStates_def Let_def using mid fin by auto
  have 2: "hd (runStates cfg views width height) = ?img0"
    by (simp add: runStates_def Let_def)
  have 3: "last (runStates cfg views width height) = normalizeImage (stitchViews cfg views ?img0)"
    by (simp only: runStates_def Let_def last_snoc last_stitchStates)
  show ?thesis
    using 1 2 3 pixelStep_weight_nonneg by blast
qed

theorem weights_nonnegative_witness:
  "normalizeImage (stitchViews plainConfig [exampleView, otherView] (newImage 4 4))
     \<in> set (runStates plainConfig [exampleView, otherView] 4 4) \<and>
   0 \<le> a (pixel (normalizeImage (stitchViews plainConfig [exampleView, otherView] (newImage 4 4))) 0 0) \<and>
   0 \<le> a exampleCell \<and>
   0 \<le> a (pixelStep plainConfig exampleView 4 4 0 0 exampleCell)"
proof -
  note w = weights_nonnegative [of plainConfig "[exampleView, otherView]" 4 4 exampleView 4 4 0 0]
  have "runStates plainConfig [exampleView, otherView] 4 4 \<noteq> []"
    by (simp add: runStates_def Let_def)
  then have "last (runStates plainConfig [exampleView, otherView] 4 4)
      \<in> set (runStates plainConfig [exampleView, otherView] 4 4)"
    by (rule last_in_set)
  with w have m: "normalizeImage (stitchViews plainConfig [exampleView, otherView] (newImage 4 4))
     \<in> set (runStates plainConfig [exampleView, otherView] 4 4)"
    by simp
  have c: "0 \<le> a exampleCell"
    by (simp add: exampleCell_def)
  show ?thesis
    using w m c by blast
qed

subsection \<open>The size of the panorama\<close>

text \<open>
  As long as the sums stay below \<open>2\<^sup>3\<^sup>1\<close>, the loop of the program computes what the
  specification's estimator computes when every view carries the tag that the program
  read before the loop.
\<close>

lemma to_int32_id: "0 \<le> n \<Longrightarrow> n < 2 ^ 31 \<Longrightarrow> to_int32 n = n"
  by (simp add: to_int32_def)

lemma sizeLoop_spec:
  assumes "0 \<le> w"
    and "w + (\<Sum>view\<leftarrow>filter isPoseAndIntrinsicDefined views.
               int (getWidth view) + int (getHeight view)) < 2 ^ 31"
  shows "sizeLoop tag views (w, h) =
         fold spec_addView
           (filter isPoseAndIntrinsicDefined
              (map (\<lambda>view. view\<lparr>getMetadataOrientation := tag\<rparr>) views)) (w, h)"
  using assms
proof (induction views arbitrary: w h)
  case Nil
  show ?case by simp
next
  case (Cons view views)
  show ?case
  proof (cases "isPoseAndIntrinsicDefined view")
    case False
    then show ?thesis using Cons by simp
  next
    case True
    let ?rest = "\<Sum>view\<leftarrow>filter isPoseAndIntrinsicDefined views.
               int (getWidth view) + int (getHeight view)"
    have rest: "0 \<le> ?rest"
      by (rule sum_list_nonneg) auto
    have bound: "w + int (getWidth view) + int (getHeight view) + ?rest < 2 ^ 31"
      using Cons.prems(2) True by (simp add: algebra_simps)
    have cw: "to_int32 (int (getWidth view)) = int (getWidth view)"
      and ch: "to_int32 (int (getHeight view)) = int (getHeight view)"
      and sw: "to_int32 (w + int (getWidth view)) = w + int (getWidth view)"
      and sh: "to_int32 (w + int (getHeight view)) = w + int (getHeight view)"
      using Cons.prems(1) rest bound by (simp_all add: to_int32_id)
    have IHw: "\<And>h'. sizeLoop tag views (w + int (getWidth view), h') =
        fold spec_addView (filter isPoseAndIntrinsicDefined
              (map (\<lambda>view. view\<lparr>getMetadataOrientation := tag\<rparr>) views)) (w + int (getWidth view), h')"
      using Cons.prems(1) rest bound by (intro Cons.IH) simp_all
    have IHh: "\<And>h'. sizeLoop tag views (w + int (getHeight view), h') =
        fold spec_addView (filter isPoseAndIntrinsicDefined
              (map (\<lambda>view. view\<lparr>getMetadataOrientation := tag\<rparr>) views)) (w + int (getHeight view), h')"
      using Cons.prems(1) rest bound by (intro Cons.IH) simp_all
    show ?thesis
      using True by (simp add: cw ch sw sh IHw IHh spec_rotated_def)
  qed
qed

lemma getView_first_valid:
  assumes "getValidViews sfmData \<noteq> {}"
  shows "\<exists>firstView. getView sfmData (Min (getValidViews sfmData)) = Some firstView \<and>
           firstView \<in> set sfmData \<and> getViewId firstView = Min (getValidViews sfmData)"
proof -
  have "Min (getValidViews sfmData) \<in> getValidViews sfmData"
    using assms by (intro Min_in) (simp_all add: getValidViews_def)
  then obtain view where "view \<in> set sfmData" and "getViewId view = Min (getValidViews sfmData)"
    by (auto simp: getValidViews_def)
  then have "find (\<lambda>view. getViewId view = Min (getValidViews sfmData)) sfmData \<noteq> None"
    by (auto simp: find_None_iff)
  then obtain firstView where f: "find (\<lambda>view. getViewId view = Min (getValidViews sfmData)) sfmData = Some firstView"
    by auto
  then have "firstView \<in> set sfmData \<and> getViewId firstView = Min (getValidViews sfmData)"
    by (auto simp: find_Some_iff)
  with f show ?thesis by (auto simp: getView_def)
qed

lemma first_valid_is_valid:
  assumes "distinct (map getViewId sfmData)" and "getValidViews sfmData \<noteq> {}"
    and "firstView \<in> set sfmData" and "getViewId firstView = Min (getValidViews sfmData)"
  shows "isPoseAndIntrinsicDefined firstView"
proof -
  have "Min (getValidViews sfmData) \<in> getValidViews sfmData"
    using assms(2) by (intro Min_in) (simp_all add: getValidViews_def)
  then obtain view where v: "view \<in> set sfmData" "isPoseAndIntrinsicDefined view"
      "getViewId view = Min (getValidViews sfmData)"
    by (auto simp: getValidViews_def)
  have inj: "inj_on getViewId (set sfmData)"
    using assms(1) by (simp add: distinct_map)
  have "getViewId view = getViewId firstView"
    using v(3) assms(4) by simp
  with inj have "view = firstView"
    using v(1) assms(3) by (rule inj_onD)
  with v(2) show ?thesis by simp
qed

lemma two_views_valid: "getValidViews [landscapeView, portraitView] = {0, 1}"
  by (auto simp: getValidViews_def landscapeView_def portraitView_def)

lemma two_views_estimate:
  "estimatePanoramaSize (0, 0) [landscapeView, portraitView] = Inr (2000, 500)"
proof -
  have "getView [landscapeView, portraitView] (Min (getValidViews [landscapeView, portraitView])) = Some landscapeView"
    by (simp add: two_views_valid getView_def) (simp add: landscapeView_def)
  then show ?thesis
    by (simp add: estimatePanoramaSize_def)
       (simp add: landscapeView_def portraitView_def to_int32_def)
qed

text \<open>
  Claim C3, as stated: without an override, each valid view is classified by its own
  orientation tag.  It fails for a normal view followed by a rotated one, both 1000 by
  500: the program computes 2000 by 500, the estimator of the specification 1500 by 1000.
\<close>

theorem size_by_own_orientation_fails:
  "estimatePanoramaSize (0, 0) [landscapeView, portraitView] = Inr (2000, 500) \<and>
   spec_SizeEstimator [landscapeView, portraitView] = (1500, 1000) \<and>
   estimatePanoramaSize (0, 0) [landscapeView, portraitView] \<noteq>
     Inr (spec_SizeEstimator [landscapeView, portraitView])"
proof -
  have "spec_SizeEstimator [landscapeView, portraitView] = (1500, 1000)"
    by (simp add: spec_SizeEstimator_def landscapeView_def portraitView_def spec_rotated_def)
  then show ?thesis
    by (simp add: two_views_estimate)
qed

text \<open>
  Claim C3, amended.  Without an override, the program reads one orientation tag, that of
  the view found under the least id of a valid view, and classifies every valid view by
  it: if the tag is rotated, every valid view adds its height to the output width and the
  output height is the maximum of the widths; otherwise every valid view adds its width
  and the output height is the maximum of the heights (sizes that fit a 32-bit \<open>int\<close>).
\<close>

theorem size_by_first_orientation:
  assumes "getValidViews sfmData \<noteq> {}"
    and "(\<Sum>view\<leftarrow>filter isPoseAndIntrinsicDefined sfmData.
            int (getWidth view) + int (getHeight view)) < 2 ^ 31"
  shows "\<exists>firstView.
           getView sfmData (Min (getValidViews sfmData)) = Some firstView \<and>
           firstView \<in> set sfmData \<and>
           getViewId firstView = Min (getValidViews sfmData) \<and>
           (distinct (map getViewId sfmData) \<longrightarrow> isPoseAndIntrinsicDefined firstView) \<and>
           estimatePanoramaSize (0, 0) sfmData =
             Inr (spec_SizeEstimator
                    (map (\<lambda>view. view\<lparr>getMetadataOrientation := getMetadataOrientation firstView\<rparr>)
                       sfmData))"
proof -
  from getView_first_valid [OF assms(1)] obtain firstView where
    f: "getView sfmData (Min (getValidViews sfmData)) = Some firstView"
      "firstView \<in> set sfmData" "getViewId firstView = Min (getValidViews sfmData)"
    by blast
  have "estimatePanoramaSize (0, 0) sfmData =
      Inr (sizeLoop (getMetadataOrientation firstView) sfmData (0, 0))"
    by (simp add: estimatePanoramaSize_def f(1))
  also have "sizeLoop (getMetadataOrientation firstView) sfmData (0, 0) =
      spec_SizeEstimator
        (map (\<lambda>view. view\<lparr>getMetadataOrientation := getMetadataOrientation firstView\<rparr>) sfmData)"
    unfolding spec_SizeEstimator_def using assms(2) by (intro sizeLoop_spec) simp_all
  finally show ?thesis
    using f first_valid_is_valid [OF _ assms(1) f(2,3)] by blast
qed

theorem size_by_first_orientation_witness:
  "getValidViews [landscapeView, portraitView] \<noteq> {} \<and>
   (\<Sum>view\<leftarrow>filter isPoseAndIntrinsicDefined [landscapeView, portraitView].
            int (getWidth view) + int (getHeight view)) < 2 ^ 31 \<and>
   getView [landscapeView, portraitView] (Min (getValidViews [landscapeView, portraitView])) =
     Some landscapeView \<and>
   distinct (map getViewId [landscapeView, portraitView]) \<and>
   isPoseAndIntrinsicDefined landscapeView \<and>
   estimatePanoramaSize (0, 0) [landscapeView, portraitView] =
     Inr (spec_SizeEstimator
            (map (\<lambda>view. view\<lparr>getMetadataOrientation := getMetadataOrientation landscapeView\<rparr>)
               [landscapeView, portraitView])) \<and>
   spec_SizeEstimator
     (map (\<lambda>view. view\<lparr>getMetadataOrientation := getMetadataOrientation landscapeView\<rparr>)
        [landscapeView, portraitView]) = (2000, 500)"
proof -
  have h1: "getValidViews [landscapeView, portraitView] \<noteq> {}"
    by (simp add: two_views_valid)
  have h2: "(\<Sum>view\<leftarrow>filter isPoseAndIntrinsicDefined [landscapeView, portraitView].
            int (getWidth view) + int (getHeight view)) < 2 ^ 31"
    by (simp add: landscapeView_def portraitView_def)
  have g: "getView [landscapeView, portraitView] (Min (getValidViews [landscapeView, portraitView])) = Some landscapeView"
    by (simp add: two_views_valid getView_def) (simp add: landscapeView_def)
  have v: "spec_SizeEstimator
     (map (\<lambda>view. view\<lparr>getMetadataOrientation := getMetadataOrientation landscapeView\<rparr>)
        [landscapeView, portraitView]) = (2000, 500)"
    by (simp add: spec_SizeEstimator_def landscapeView_def portraitView_def spec_rotated_def)
  have dv: "distinct (map getViewId [landscapeView, portraitView])"
    by (simp add: landscapeView_def portraitView_def)
  from size_by_first_orientation [OF h1 h2] g dv
  have "isPoseAndIntrinsicDefined landscapeView" and
    "estimatePanoramaSize (0, 0) [landscapeView, portraitView] =
     Inr (spec_SizeEstimator
            (map (\<lambda>view. view\<lparr>getMetadataOrientation := getMetadataOrientation landscapeView\<rparr>)
               [landscapeView, portraitView]))"
    by auto
  with h1 h2 g v dv show ?thesis by blast
qed

subsection \<open>The command line\<close>

lemma parse_with_required:
  assumes "arg_input cmd = Some i" and "arg_output cmd = Some out"
  shows "parseCommandLine cmd =
     Inr \<lparr>sfmDataFilename = i, outputPanorama = out,
          scaleFactor = (case arg_scaleFactor cmd of None \<Rightarrow> 0.2 | Some v \<Rightarrow> v),
          fisheyeMasking = (case arg_fisheyeMasking cmd of None \<Rightarrow> False | Some v \<Rightarrow> v),
          fisheyeMaskingMargin = (case arg_fisheyeMaskingMargin cmd of None \<Rightarrow> 0.05 | Some v \<Rightarrow> v),
          transitionSize = (case arg_transitionSize cmd of None \<Rightarrow> 10 | Some v \<Rightarrow> v)\<rparr>"
  using assms by (simp add: parseCommandLine_def)

lemma sigmoid_f32_range:
  "sigmoid_f32 x t m = NaN \<or> (\<exists>w. sigmoid_f32 x t m = Finite w \<and> 0 \<le> w \<and> w \<le> 1)"
proof (cases "fmul round32 (Finite 10) (fdiv round32 (fsub round32 x m) t) = NaN")
  case True
  then show ?thesis
    by (simp add: sigmoid_f32_def)
next
  case False
  then have "fle (Finite 0) (fexp round32 (fmul round32 (Finite 10) (fdiv round32 (fsub round32 x m) t)))"
    by (rule fexp_nonneg)
  then have "fle (Finite 1)
      (fadd round32 (Finite 1) (fexp round32 (fmul round32 (Finite 10) (fdiv round32 (fsub round32 x m) t))))"
    by (rule fadd1_ge1)
  then have "\<exists>w. sigmoid_f32 x t m = Finite w \<and> 0 \<le> w \<and> w \<le> 1"
    unfolding sigmoid_f32_def by (rule frecip_range)
  then show ?thesis ..
qed

lemma contribution_f32_accumulated:
  assumes "contribution_f32 cfg view pix = Some c" and "fgt c (Finite 0)"
  shows "\<exists>w. c = Finite w \<and> 0 < w \<and> w \<le> 1"
proof (cases "fisheyeMasking cfg")
  case True
  with assms(1) have "c = sigmoid_f32 (dist_f32 view pix) (round32 (transitionSize cfg)) (blurMid_f32 cfg view)"
    by (simp add: contribution_f32_def Let_def split: if_splits)
  with sigmoid_f32_range [of "dist_f32 view pix" "round32 (transitionSize cfg)" "blurMid_f32 cfg view"]
  have "c = NaN \<or> (\<exists>w. c = Finite w \<and> 0 \<le> w \<and> w \<le> 1)"
    by simp
  with assms(2) show ?thesis by auto
next
  case False
  with assms(1) have "c = Finite 1"
    by (simp add: contribution_f32_def)
  then show ?thesis by simp
qed

lemma accumulate_f32_discarded: "\<not> fgt c (Finite 0) \<Longrightarrow> accumulate_f32 cell px c = cell"
  by (simp add: accumulate_f32_def)

lemma main_transitionSize_independent:
  assumes "arg_input cmd = Some i" and "arg_output cmd = Some out"
  shows "main_panoramaStitching (cmd\<lparr>arg_transitionSize := t'\<rparr>) loaded = Inl e \<longleftrightarrow>
         main_panoramaStitching cmd loaded = Inl e"
proof -
  have p: "parseCommandLine cmd =
     Inr \<lparr>sfmDataFilename = i, outputPanorama = out,
          scaleFactor = (case arg_scaleFactor cmd of None \<Rightarrow> 0.2 | Some v \<Rightarrow> v),
          fisheyeMasking = (case arg_fisheyeMasking cmd of None \<Rightarrow> False | Some v \<Rightarrow> v),
          fisheyeMaskingMargin = (case arg_fisheyeMaskingMargin cmd of None \<Rightarrow> 0.05 | Some v \<Rightarrow> v),
          transitionSize = (case arg_transitionSize cmd of None \<Rightarrow> 10 | Some v \<Rightarrow> v)\<rparr>"
    using assms by (rule parse_with_required)
  have p': "parseCommandLine (cmd\<lparr>arg_transitionSize := t'\<rparr>) =
     Inr \<lparr>sfmDataFilename = i, outputPanorama = out,
          scaleFactor = (case arg_scaleFactor cmd of None \<Rightarrow> 0.2 | Some v \<Rightarrow> v),
          fisheyeMasking = (case arg_fisheyeMasking cmd of None \<Rightarrow> False | Some v \<Rightarrow> v),
          fisheyeMaskingMargin = (case arg_fisheyeMaskingMargin cmd of None \<Rightarrow> 0.05 | Some v \<Rightarrow> v),
          transitionSize = (case t' of None \<Rightarrow> 10 | Some v \<Rightarrow> v)\<rparr>"
    using parse_with_required [of "cmd\<lparr>arg_transitionSize := t'\<rparr>" i out] assms by simp
  show ?thesis
    unfolding main_panoramaStitching_def p p'
    by (simp split: option.splits sum.splits prod.splits)
qed

lemma round32_fifth: "round32 0.2 = Finite (13421773 / 2 ^ 26)"
proof -
  let ?x = "0.2 :: real"
  have "rnd 24 (- 126) ?x = 2 powi (- 3 - (int 24 - 1)) * real_of_int (rne (?x / 2 powi (- 3 - (int 24 - 1))))"
    by (rule rnd_in_binade) (simp_all add: power_int_minus)
  moreover have "rne (?x / 2 powi (- 3 - (int 24 - 1))) = 13421773"
    by (rule rne_near) (simp add: power_int_minus field_simps)
  ultimately have "rnd 24 (- 126) ?x = 13421773 / 2 ^ 26"
    by (simp add: power_int_minus field_simps)
  then show ?thesis
    by (simp add: round32_def round_to_def)
qed

lemma mulAssign_100: "mulAssign 100 (Finite (13421773 / 2 ^ 26)) = Some 20"
proof -
  let ?x = "100 * (13421773 / 2 ^ 26) :: real"
  have "rnd 24 (- 126) ?x = 2 powi (4 - (int 24 - 1)) * real_of_int (rne (?x / 2 powi (4 - (int 24 - 1))))"
    by (rule rnd_in_binade) simp_all
  moreover have "rne (?x / 2 powi (4 - (int 24 - 1))) = 10485760"
    by (rule rne_near) (simp add: power_int_minus field_simps)
  ultimately have "rnd 24 (- 126) ?x = 20"
    by (simp add: power_int_minus field_simps)
  then have "round32 ?x = Finite 20"
    by (simp add: round32_def round_to_def)
  then show ?thesis
    by (simp add: mulAssign_def trunc_to_int_def)
qed

lemma degenerate_parse: "parseCommandLine degenerateCmd = Inr negativeTransitionConfig"
  by (simp add: parseCommandLine_def degenerateCmd_def negativeTransitionConfig_def)

lemma degenerate_size: "estimatePanoramaSize (0, 0) [centreView] = Inr (100, 100)"
proof -
  have v: "getValidViews [centreView] = {0}"
    by (simp add: getValidViews_def centreView_def)
  have "getView [centreView] (Min (getValidViews [centreView])) = Some centreView"
    by (simp add: v getView_def) (simp add: centreView_def)
  then show ?thesis
    by (simp add: estimatePanoramaSize_def) (simp add: centreView_def to_int32_def)
qed

lemma degenerate_main:
  "main_panoramaStitching degenerateCmd (Some [centreView]) =
     Inr (normalizeImage (stitchViews negativeTransitionConfig [centreView] (newImage 20 20)))"
proof -
  have v: "getValidViews [centreView] = {0}"
    by (simp add: getValidViews_def centreView_def)
  have "round32 (scaleFactor negativeTransitionConfig) = Finite (13421773 / 2 ^ 26)"
    using round32_fifth by (simp add: negativeTransitionConfig_def)
  then have s: "mulAssign 100 (round32 (scaleFactor negativeTransitionConfig)) = Some 20"
    by (simp only: mulAssign_100)
  have rd: "isPoseAndIntrinsicDefined centreView \<and> imageIn_Readable centreView"
    by (simp add: centreView_def)
  show ?thesis
    unfolding main_panoramaStitching_def degenerate_parse
    by (simp add: v degenerate_size s rd del: stitchViews.simps)
qed

lemma centreView_f32:
  "fisheyeMaskingMargin cfg = 0 \<Longrightarrow> maxRadius_f32 cfg centreView = Finite 50"
  "dist_f32 centreView (50, 50) = Finite 0"
  "dist_f32 centreView (50, 0) = Finite 50"
proof -
  show "fisheyeMaskingMargin cfg = 0 \<Longrightarrow> maxRadius_f32 cfg centreView = Finite 50"
    by (simp add: maxRadius_f32_def centreView_def fsub_def)
  have c: "center centreView = (50, 50)"
    by (simp add: center_def trunc_to_int_def centreView_def)
  show "dist_f32 centreView (50, 50) = Finite 0"
    by (simp add: dist_f32_def c fsub_def)
  have s: "sqrt 2500 = 50"
    by (rule real_sqrt_unique) simp_all
  show "dist_f32 centreView (50, 0) = Finite 50"
    by (simp add: dist_f32_def c fsub_def s)
qed

lemma negative_contribution_f32:
  "contribution_f32 negativeTransitionConfig centreView (50, 50) =
     Some (sigmoid_f32 (Finite 0) (Finite (- 10)) (Finite 55))"
proof -
  have m: "maxRadius_f32 negativeTransitionConfig centreView = Finite 50"
    by (rule centreView_f32) (simp add: negativeTransitionConfig_def)
  have t: "round32 (transitionSize negativeTransitionConfig) = Finite (- 10)"
    by (simp add: negativeTransitionConfig_def)
  have k: "blurMid_f32 negativeTransitionConfig centreView = Finite 55"
    unfolding blurMid_f32_def m t by (simp add: fsub_def)
  have f: "fisheyeMasking negativeTransitionConfig"
    by (simp add: negativeTransitionConfig_def)
  show ?thesis
    using f by (simp add: contribution_f32_def Let_def centreView_f32(2) m t k)
qed

lemma negative_weight_f32:
  "\<exists>w. sigmoid_f32 (Finite 0) (Finite (- 10)) (Finite 55) = Finite w \<and> 0 < w \<and>
       round32 w = Finite w"
proof -
  have q: "round32 (11 / 2) = Finite (11 / 2)"
    using round32_half_int [of 11] by simp
  have v: "fmul round32 (Finite 10) (fdiv round32 (fsub round32 (Finite 0) (Finite 55)) (Finite (- 10))) =
      Finite 55"
    by (simp add: fsub_def q)
  have "(2::real) powi 55 \<le> exp (real_of_int 55)"
    by (rule exp_ge_pow2) simp
  then have lo: "2 ^ 55 \<le> exp (55::real)" by simp
  have "exp (real 55) \<le> 3 ^ 55"
    by (rule exp_le_pow3)
  then have hi: "exp (55::real) \<le> 2 ^ 88" by simp
  have p: "round32 (2 ^ 55) = Finite (2 ^ 55)" "round32 (2 ^ 88) = Finite (2 ^ 88)"
    "round32 (2 ^ 89) = Finite (2 ^ 89)"
    using round32_pow2 [of 55] round32_pow2 [of 88] round32_pow2 [of 89] by simp_all
  have "\<exists>e. round32 (exp 55) = Finite e \<and> 2 ^ 55 \<le> e \<and> e \<le> 2 ^ 88"
    using lo hi p by (intro round32_between)
  then obtain e where e: "round32 (exp 55) = Finite e" "2 ^ 55 \<le> e" "e \<le> 2 ^ 88"
    by blast
  have "\<exists>d. round32 (1 + e) = Finite d \<and> 2 ^ 55 \<le> d \<and> d \<le> 2 ^ 89"
    using e(2,3) p by (intro round32_between) simp_all
  then obtain d where d: "round32 (1 + e) = Finite d" "2 ^ 55 \<le> d" "d \<le> 2 ^ 89"
    by blast
  have "1 / 2 ^ 89 \<le> 1 / d" and "1 / d \<le> 1 / 2 ^ 55"
    using d(2,3) by (simp_all add: field_simps)
  moreover have "round32 (1 / 2 ^ 89) = Finite (1 / 2 ^ 89)" "round32 (1 / 2 ^ 55) = Finite (1 / 2 ^ 55)"
    using round32_pow2 [of "- 89"] round32_pow2 [of "- 55"] by (simp_all add: power_int_minus)
  ultimately have "\<exists>w. round32 (1 / d) = Finite w \<and> 1 / 2 ^ 89 \<le> w \<and> w \<le> 1 / 2 ^ 55"
    by (intro round32_between)
  then obtain w where w: "round32 (1 / d) = Finite w" "1 / 2 ^ 89 \<le> w"
    by blast
  have "(0::real) < 1 / 2 ^ 89" by simp
  then have pos: "0 < w" using w(2) by (rule less_le_trans)
  have "representable 24 (- 126) w" "\<bar>w\<bar> < 2 ^ 128"
    using round32_Finite [OF w(1)] by blast+
  then have ex: "round32 w = Finite w"
    by (rule round32_exact)
  have "d \<noteq> 0" using d(2) by auto
  then have "sigmoid_f32 (Finite 0) (Finite (- 10)) (Finite 55) = Finite w"
    unfolding sigmoid_f32_def v by (simp add: e(1) d(1) w(1))
  with pos ex show ?thesis by blast
qed

lemma centreView_visible:
  "visiblePixel centreView (get3DPoint (real_of_int 0, real_of_int 0) 20 20) = Some (50, 50)"
  using top_row_depth [of 20 0 20] by (simp add: visiblePixel_def centreView_def)

lemma zero_parse: "parseCommandLine zeroTransitionCmd = Inr zeroTransitionConfig"
  by (simp add: parseCommandLine_def zeroTransitionCmd_def zeroTransitionConfig_def)

lemma zero_contribution_f32:
  "contribution_f32 zeroTransitionConfig rimView (50, 0) = Some NaN"
  "contribution_f32 zeroTransitionConfig centreView (50, 50) = Some (Finite 1)"
proof -
  have g: "fisheyeMaskingMargin zeroTransitionConfig = 0"
    and t: "round32 (transitionSize zeroTransitionConfig) = Finite 0"
    and f: "fisheyeMasking zeroTransitionConfig"
    by (simp_all add: zeroTransitionConfig_def)
  have m: "maxRadius_f32 zeroTransitionConfig rimView = Finite 50"
    "maxRadius_f32 zeroTransitionConfig centreView = Finite 50"
    using g by (rule rimView_maxRadius_f32, rule centreView_f32)
  have k: "blurMid_f32 zeroTransitionConfig rimView = Finite 50"
    "blurMid_f32 zeroTransitionConfig centreView = Finite 50"
    unfolding blurMid_f32_def m t by (simp_all add: fsub_def)
  show "contribution_f32 zeroTransitionConfig rimView (50, 0) = Some NaN"
    using f by (simp add: contribution_f32_def Let_def rimView_dist_f32 m t k sigmoid_f32_def fsub_def)
  show "contribution_f32 zeroTransitionConfig centreView (50, 50) = Some (Finite 1)"
    using f by (simp add: contribution_f32_def Let_def centreView_f32(2) m t k sigmoid_f32_def fsub_def)
qed

text \<open>
  Claim C8, as stated: a transition size that is not positive is rejected at configuration
  time, so that no run evaluates the weighting formula with it.  It fails: the command
  line with \<open>transitionSize = -10\<close> is parsed into a configuration, the run ends with a
  panorama, the weight of the sample at the centre of the image is the sigmoid evaluated
  with \<open>-10\<close>, and that weight is positive and is added to the cell.
\<close>

theorem nonpositive_transitionSize_accepted:
  "arg_transitionSize degenerateCmd = Some (- 10) \<and>
   parseCommandLine degenerateCmd = Inr negativeTransitionConfig \<and>
   transitionSize negativeTransitionConfig = - 10 \<and>
   main_panoramaStitching degenerateCmd (Some [centreView]) =
     Inr (normalizeImage (stitchViews negativeTransitionConfig [centreView] (newImage 20 20))) \<and>
   visiblePixel centreView (get3DPoint (real_of_int 0, real_of_int 0) 20 20) = Some (50, 50) \<and>
   contribution_f32 negativeTransitionConfig centreView (50, 50) =
     Some (sigmoid_f32 (Finite 0) (Finite (- 10)) (Finite 55)) \<and>
   fgt (sigmoid_f32 (Finite 0) (Finite (- 10)) (Finite 55)) (Finite 0) \<and>
   a32 (accumulate_f32 emptyCell_f32 exampleColor_f32 (sigmoid_f32 (Finite 0) (Finite (- 10)) (Finite 55))) =
     sigmoid_f32 (Finite 0) (Finite (- 10)) (Finite 55)"
proof -
  have t: "arg_transitionSize degenerateCmd = Some (- 10)"
    by (simp add: degenerateCmd_def)
  have t': "transitionSize negativeTransitionConfig = - 10"
    by (simp add: negativeTransitionConfig_def)
  from negative_weight_f32 obtain w where
    w: "sigmoid_f32 (Finite 0) (Finite (- 10)) (Finite 55) = Finite w" "0 < w" "round32 w = Finite w"
    by blast
  have g: "fgt (sigmoid_f32 (Finite 0) (Finite (- 10)) (Finite 55)) (Finite 0)"
    using w(2) by (simp add: w(1))
  have acc: "a32 (accumulate_f32 emptyCell_f32 exampleColor_f32 (sigmoid_f32 (Finite 0) (Finite (- 10)) (Finite 55))) =
     sigmoid_f32 (Finite 0) (Finite (- 10)) (Finite 55)"
    using w(2,3) by (simp add: w(1) accumulate_f32_def emptyCell_f32_def)
  show ?thesis
    using t degenerate_parse t' degenerate_main centreView_visible negative_contribution_f32 g acc
    by blast
qed

text \<open>
  Claim C8, amended.  The transition size is not validated: whenever the input and the
  output are given, any transition size \<open>t\<close> on the command line is taken over unchanged,
  whether the run ends without a panorama does not depend on it, and with fisheye masking
  every sample that passes the radius test is weighted by the sigmoid evaluated with \<open>t\<close>
  (as a \<open>float\<close>).  What the claim says about the accumulator holds: a weight that fails
  the guard \<open>contribution > 0\<close>, as NaN does, leaves the cell as it is, and a weight that
  passes it is a finite number in \<open>(0, 1]\<close>; no NaN of the weighting formula reaches the
  accumulator.
\<close>

theorem transitionSize_unvalidated_guarded:
  assumes "arg_input cmd = Some i" and "arg_output cmd = Some out"
    and "arg_transitionSize cmd = Some t"
  shows "\<exists>cfg. parseCommandLine cmd = Inr cfg \<and> transitionSize cfg = t \<and>
           (\<forall>t' loaded e.
              (main_panoramaStitching (cmd\<lparr>arg_transitionSize := t'\<rparr>) loaded = Inl e) =
              (main_panoramaStitching cmd loaded = Inl e)) \<and>
           (\<forall>view pix. fisheyeMasking cfg \<and> \<not> fgt (dist_f32 view pix) (maxRadius_f32 cfg view) \<longrightarrow>
              contribution_f32 cfg view pix =
                Some (sigmoid_f32 (dist_f32 view pix) (round32 t) (blurMid_f32 cfg view))) \<and>
           (\<forall>view pix c cell px.
              contribution_f32 cfg view pix = Some c \<and> \<not> fgt c (Finite 0) \<longrightarrow>
              accumulate_f32 cell px c = cell) \<and>
           (\<forall>view pix c.
              contribution_f32 cfg view pix = Some c \<and> fgt c (Finite 0) \<longrightarrow>
              (\<exists>w. c = Finite w \<and> 0 < w \<and> w \<le> 1))"
proof -
  let ?cfg = "\<lparr>sfmDataFilename = i, outputPanorama = out,
          scaleFactor = (case arg_scaleFactor cmd of None \<Rightarrow> 0.2 | Some v \<Rightarrow> v),
          fisheyeMasking = (case arg_fisheyeMasking cmd of None \<Rightarrow> False | Some v \<Rightarrow> v),
          fisheyeMaskingMargin = (case arg_fisheyeMaskingMargin cmd of None \<Rightarrow> 0.05 | Some v \<Rightarrow> v),
          transitionSize = (case arg_transitionSize cmd of None \<Rightarrow> 10 | Some v \<Rightarrow> v)\<rparr>"
  have p: "parseCommandLine cmd = Inr ?cfg"
    using assms(1,2) by (rule parse_with_required)
  have t: "transitionSize ?cfg = t"
    using assms(3) by simp
  have m: "\<forall>t' loaded e.
              (main_panoramaStitching (cmd\<lparr>arg_transitionSize := t'\<rparr>) loaded = Inl e) =
              (main_panoramaStitching cmd loaded = Inl e)"
    using main_transitionSize_independent [OF assms(1,2)] by blast
  have c: "\<forall>view pix. fisheyeMasking ?cfg \<and> \<not> fgt (dist_f32 view pix) (maxRadius_f32 ?cfg view) \<longrightarrow>
              contribution_f32 ?cfg view pix =
                Some (sigmoid_f32 (dist_f32 view pix) (round32 t) (blurMid_f32 ?cfg view))"
    using t by (simp add: contribution_f32_def Let_def)
  have d: "\<forall>view pix c cell px.
              contribution_f32 ?cfg view pix = Some c \<and> \<not> fgt c (Finite 0) \<longrightarrow>
              accumulate_f32 cell px c = cell"
    using accumulate_f32_discarded by blast
  have e: "\<forall>view pix c.
              contribution_f32 ?cfg view pix = Some c \<and> fgt c (Finite 0) \<longrightarrow>
              (\<exists>w. c = Finite w \<and> 0 < w \<and> w \<le> 1)"
    using contribution_f32_accumulated by blast
  show ?thesis
    using p t m c d e by blast
qed

theorem transitionSize_unvalidated_guarded_witness:
  "arg_input zeroTransitionCmd = Some ''scene.sfm'' \<and>
   arg_output zeroTransitionCmd = Some ''pano.exr'' \<and>
   arg_transitionSize zeroTransitionCmd = Some 0 \<and>
   parseCommandLine zeroTransitionCmd = Inr zeroTransitionConfig \<and>
   transitionSize zeroTransitionConfig = 0 \<and>
   main_panoramaStitching zeroTransitionCmd None = Inl EXIT_FAILURE \<and>
   main_panoramaStitching (zeroTransitionCmd\<lparr>arg_transitionSize := Some 10\<rparr>) None = Inl EXIT_FAILURE \<and>
   fisheyeMasking zeroTransitionConfig \<and>
   \<not> fgt (dist_f32 rimView (50, 0)) (maxRadius_f32 zeroTransitionConfig rimView) \<and>
   contribution_f32 zeroTransitionConfig rimView (50, 0) =
     Some (sigmoid_f32 (dist_f32 rimView (50, 0)) (round32 0) (blurMid_f32 zeroTransitionConfig rimView)) \<and>
   contribution_f32 zeroTransitionConfig rimView (50, 0) = Some NaN \<and>
   \<not> fgt NaN (Finite 0) \<and>
   accumulate_f32 emptyCell_f32 exampleColor_f32 NaN = emptyCell_f32 \<and>
   contribution_f32 zeroTransitionConfig centreView (50, 50) = Some (Finite 1) \<and>
   fgt (Finite 1) (Finite 0) \<and>
   (\<exists>w. Finite 1 = Finite w \<and> 0 < w \<and> w \<le> 1)"
proof -
  have h1: "arg_input zeroTransitionCmd = Some ''scene.sfm''"
    and h2: "arg_output zeroTransitionCmd = Some ''pano.exr''"
    and h3: "arg_transitionSize zeroTransitionCmd = Some 0"
    by (simp_all add: zeroTransitionCmd_def)
  have f: "fisheyeMasking zeroTransitionConfig"
    by (simp add: zeroTransitionConfig_def)
  have m: "maxRadius_f32 zeroTransitionConfig rimView = Finite 50"
    by (rule rimView_maxRadius_f32) (simp add: zeroTransitionConfig_def)
  have n: "\<not> fgt (dist_f32 rimView (50, 0)) (maxRadius_f32 zeroTransitionConfig rimView)"
    by (simp add: rimView_dist_f32 m)
  have r0: "main_panoramaStitching zeroTransitionCmd None = Inl EXIT_FAILURE"
    by (simp add: main_panoramaStitching_def zero_parse)
  have g0: "\<not> fgt NaN (Finite 0)" and g1: "fgt (Finite 1) (Finite 0)"
    by simp_all
  from transitionSize_unvalidated_guarded [OF h1 h2 h3] obtain cfg where
    cfg: "parseCommandLine zeroTransitionCmd = Inr cfg"
    and ts: "transitionSize cfg = 0"
    and run: "\<forall>t' loaded e.
              (main_panoramaStitching (zeroTransitionCmd\<lparr>arg_transitionSize := t'\<rparr>) loaded = Inl e) =
              (main_panoramaStitching zeroTransitionCmd loaded = Inl e)"
    and w: "\<forall>view pix. fisheyeMasking cfg \<and> \<not> fgt (dist_f32 view pix) (maxRadius_f32 cfg view) \<longrightarrow>
              contribution_f32 cfg view pix =
                Some (sigmoid_f32 (dist_f32 view pix) (round32 0) (blurMid_f32 cfg view))"
    and d: "\<forall>view pix c cell px.
              contribution_f32 cfg view pix = Some c \<and> \<not> fgt c (Finite 0) \<longrightarrow>
              accumulate_f32 cell px c = cell"
    and a: "\<forall>view pix c.
              contribution_f32 cfg view pix = Some c \<and> fgt c (Finite 0) \<longrightarrow>
              (\<exists>w. c = Finite w \<and> 0 < w \<and> w \<le> 1)"
    by blast
  have e: "cfg = zeroTransitionConfig"
    using cfg zero_parse by simp
  have r1: "main_panoramaStitching (zeroTransitionCmd\<lparr>arg_transitionSize := Some 10\<rparr>) None = Inl EXIT_FAILURE"
    using run r0 by blast
  have c1: "contribution_f32 zeroTransitionConfig rimView (50, 0) =
     Some (sigmoid_f32 (dist_f32 rimView (50, 0)) (round32 0) (blurMid_f32 zeroTransitionConfig rimView))"
    using w f n unfolding e by blast
  have c2: "accumulate_f32 emptyCell_f32 exampleColor_f32 NaN = emptyCell_f32"
    using d zero_contribution_f32(1) g0 unfolding e by blast
  have c3: "\<exists>w. Finite 1 = Finite w \<and> 0 < w \<and> w \<le> 1"
    using a zero_contribution_f32(2) g1 unfolding e by blast
  show ?thesis
    using h1 h2 h3 zero_parse ts r0 r1 f n c1 zero_contribution_f32 g0 c2 g1 c3 unfolding e
    by blast
qed

end
